theory Spec2Isabelle
  imports Main "HOL-Library.Sublist" "HOL-Library.AList" "HOL-Library.Multiset"
    "HOL-Library.Code_Target_Nat"
begin

section \<open>Strings, paths and Python built-ins used by \<open>status.py\<close>\<close>

text \<open>
  A Python \<open>str\<close> is a sequence of Unicode code points; it is modelled as a list of
  natural numbers. \<open>ord c\<close> is the code point of an ASCII character and \<open>str s\<close> the
  code points of an ASCII literal, so \<open>str ''POSCAR''\<close> stands for \<open>"POSCAR"\<close>. The
  operating-system services the program calls are inputs of the model: the sequence of
  \<open>(root, dirs, files)\<close> triples that \<open>os.walk\<close> yields, and the predicate
  \<open>os.path.isfile\<close> on paths.
\<close>

type_synonym py_str = "nat list"

definition ord :: "char \<Rightarrow> nat" where
  "ord c = of_char c"

definition str :: "string \<Rightarrow> py_str" where
  "str s = map ord s"

datatype py_error = ValueError | KeyError

type_synonym walk_entry = "py_str \<times> py_str list \<times> py_str list"

definition files_of :: "walk_entry list \<Rightarrow> py_str set" where
  "files_of walk = (\<Union>(root, dirs, files) \<in> set walk. set files)"

text \<open>\<open>str.rfind\<close> for a one-character needle: the highest index, or \<open>-1\<close>.\<close>

fun rfind :: "py_str \<Rightarrow> nat \<Rightarrow> int" where
  "rfind [] c = - 1"
| "rfind (x # xs) c =
     (let r = rfind xs c in if 0 \<le> r then r + 1 else if x = c then 0 else - 1)"

text \<open>
  The loop of \<open>genericpath._splitext\<close> that skips leading dots: it answers whether some
  character in \<open>p[filenameIndex:dotIndex]\<close> differs from the extension separator.
\<close>

function skip_leading_dots :: "py_str \<Rightarrow> nat \<Rightarrow> nat \<Rightarrow> bool" where
  "skip_leading_dots p filenameIndex dotIndex =
     (if filenameIndex < dotIndex
      then (if p ! filenameIndex \<noteq> ord CHR ''.'' then True
            else skip_leading_dots p (Suc filenameIndex) dotIndex)
      else False)"
  by pat_completeness auto
termination
  by (relation "measure (\<lambda>(p, filenameIndex, dotIndex). dotIndex - filenameIndex)") auto

declare skip_leading_dots.simps [simp del]

text \<open>\<open>os.path.splitext\<close> (POSIX): the extension starts at the last dot of the last
  path component, unless that component consists of leading dots only up to there.\<close>

definition splitext :: "py_str \<Rightarrow> py_str \<times> py_str" where
  "splitext p =
     (let sepIndex = rfind p (ord CHR ''/'');
          dotIndex = rfind p (ord CHR ''.'')
      in if sepIndex < dotIndex \<and> skip_leading_dots p (nat (sepIndex + 1)) (nat dotIndex)
         then (take (nat dotIndex) p, drop (nat dotIndex) p)
         else (p, []))"

text \<open>\<open>os.path.join\<close> of two components (POSIX).\<close>

definition path_join :: "py_str \<Rightarrow> py_str \<Rightarrow> py_str" where
  "path_join a b =
     (if prefix (str ''/'') b then b
      else if a = [] \<or> suffix (str ''/'') a then a @ b
      else a @ str ''/'' @ b)"

text \<open>\<open>str.split(sep)\<close> with an explicit one-character separator: every occurrence
  splits, empty segments are kept, and the empty string gives one empty segment.\<close>

fun split :: "py_str \<Rightarrow> nat \<Rightarrow> py_str list" where
  "split [] sep = [[]]"
| "split (c # cs) sep =
     (if c = sep then [] # split cs sep
      else (case split cs sep of [] \<Rightarrow> [[c]] | seg # segs \<Rightarrow> (c # seg) # segs))"

subsection \<open>The Unicode tables behind \<open>\d\<close> and \<open>int\<close>\<close>

text \<open>
  Both the class \<open>\d\<close> of \<open>re\<close> on \<open>str\<close> patterns and \<open>int\<close> go by the Unicode decimal
  digits (category Nd). In the Unicode database of CPython 3.11 (Unicode 14.0) these are
  66 blocks of ten consecutive code points for the digits 0 to 9; \<open>decimal_zeros\<close> lists
  the code point of the zero of each block, the ASCII digits first. \<open>unicode_decimal\<close> is
  the digit a code point stands for (\<open>Py_UNICODE_TODECIMAL\<close>), \<open>unicode_isspace\<close> the
  white-space class of \<open>str\<close> (\<open>Py_UNICODE_ISSPACE\<close>), \<open>ascii_isspace\<close> the class that
  the number parser skips (\<open>Py_ISSPACE\<close>).
\<close>

definition decimal_zeros :: "nat list" where
  "decimal_zeros =
     [48, 1632, 1776, 1984, 2406, 2534, 2662, 2790, 2918, 3046, 3174, 3302, 3430, 3558,
      3664, 3792, 3872, 4160, 4240, 6112, 6160, 6470, 6608, 6784, 6800, 6992, 7088, 7232,
      7248, 42528, 43216, 43264, 43472, 43504, 43600, 44016, 65296, 66720, 68912, 69734,
      69872, 69942, 70096, 70384, 70736, 70864, 71248, 71360, 71472, 71904, 72016, 72784,
      73040, 73120, 92768, 92864, 93008, 120782, 120792, 120802, 120812, 120822, 123200,
      123632, 125264, 130032]"

definition unicode_decimal :: "nat \<Rightarrow> nat option" where
  "unicode_decimal ch =
     (case find (\<lambda>zero. zero \<le> ch \<and> ch < zero + 10) decimal_zeros of
        None \<Rightarrow> None
      | Some zero \<Rightarrow> Some (ch - zero))"

definition unicode_spaces :: "nat list" where
  "unicode_spaces =
     [9, 10, 11, 12, 13, 28, 29, 30, 31, 32, 133, 160, 5760, 8192, 8193, 8194, 8195, 8196,
      8197, 8198, 8199, 8200, 8201, 8202, 8232, 8233, 8239, 8287, 12288]"

definition unicode_isspace :: "nat \<Rightarrow> bool" where
  "unicode_isspace ch \<longleftrightarrow> ch \<in> set unicode_spaces"

definition ascii_isspace :: "nat \<Rightarrow> bool" where
  "ascii_isspace ch \<longleftrightarrow> ch \<in> set [9, 10, 11, 12, 13, 32]"

definition ascii_isdigit :: "nat \<Rightarrow> bool" where
  "ascii_isdigit ch \<longleftrightarrow> 48 \<le> ch \<and> ch \<le> 57"

definition is_digit_or_underscore :: "nat \<Rightarrow> bool" where
  "is_digit_or_underscore ch \<longleftrightarrow> ascii_isdigit ch \<or> ch = ord CHR ''_''"

text \<open>
  \<open>int\<close> first rewrites a \<open>str\<close> to ASCII (\<open>_PyUnicode_TransformDecimalAndSpaceToASCII\<close>):
  code points below 127 stay, other white space becomes a blank, other decimal digits
  become the ASCII digit, and anything else a question mark, on which the parser fails.
  The code points 28 to 31 are white space for \<open>str.isspace\<close>, but they stay as they are
  and the parser does not skip them.
\<close>

definition to_ascii :: "nat \<Rightarrow> nat" where
  "to_ascii ch =
     (if ch < 127 then ch
      else if unicode_isspace ch then ord CHR '' ''
      else (case unicode_decimal ch of
              None \<Rightarrow> ord CHR ''?''
            | Some d \<Rightarrow> ord CHR ''0'' + d))"

text \<open>
  The built-in \<open>int(s)\<close> in base 10 (\<open>PyLong_FromString\<close> on the rewritten text): white
  space around the literal is skipped, one sign is allowed, single underscores may
  separate digits, and anything else raises \<open>ValueError\<close> (here \<open>None\<close>), as does a literal
  of more than 4300 digits, the default of \<open>sys.int_max_str_digits\<close>.
\<close>

definition py_int :: "py_str \<Rightarrow> int option" where
  "py_int s =
     (let s1 = dropWhile ascii_isspace (map to_ascii s);
          negative = prefix (str ''-'') s1;
          s2 = (if prefix (str ''+'') s1 \<or> prefix (str ''-'') s1 then tl s1 else s1);
          body = takeWhile is_digit_or_underscore s2;
          rest = dropWhile is_digit_or_underscore s2;
          digits = filter ascii_isdigit body
      in if body = [] \<or> hd body = ord CHR ''_'' \<or> last body = ord CHR ''_''
            \<or> sublist (str ''__'') body \<or> \<not> list_all ascii_isspace rest
            \<or> 4300 < length digits
         then None
         else (let n = int (foldl (\<lambda>n ch. 10 * n + (ch - ord CHR ''0'')) 0 digits)
               in Some (if negative then - n else n)))"

text \<open>Decimal digits of a natural number, and \<open>str(n)\<close> for an integer.\<close>

fun str_nat :: "nat \<Rightarrow> py_str" where
  "str_nat n =
     (if n < 10 then [ord CHR ''0'' + n]
      else str_nat (n div 10) @ [ord CHR ''0'' + n mod 10])"

declare str_nat.simps [simp del]

definition str_int :: "int \<Rightarrow> py_str" where
  "str_int i = (if i < 0 then str ''-'' @ str_nat (nat (- i)) else str_nat (nat i))"

text \<open>The format specification \<open>02d\<close>: sign-aware zero padding to width two. The program
  formats numbers from 0 to 99 only; that formatting raises for a number of more than 4300
  digits is left out.\<close>

definition format_02d :: "int \<Rightarrow> py_str" where
  "format_02d i =
     (let s = str_int i
      in if length s < 2 then replicate (2 - length s) (ord CHR ''0'') @ s else s)"

text \<open>The format specification \<open><w\<close>: left-aligned, padded with spaces, never cut.\<close>

definition format_left :: "nat \<Rightarrow> py_str \<Rightarrow> py_str" where
  "format_left w s = s @ replicate (w - length s) (ord CHR '' '')"

section \<open>\<open>get_valid_cif_files\<close>\<close>

definition get_valid_cif_files :: "walk_entry list \<Rightarrow> py_str set" where
  "get_valid_cif_files walk =
     fold (\<lambda>(root, dirs, files) valid_cif_files.
             fold (\<lambda>file valid_cif_files.
                     if suffix (str ''.cif'') file \<and> \<not> sublist (str ''_dont_use'') file
                     then insert (fst (splitext file)) valid_cif_files
                     else valid_cif_files)
                  files valid_cif_files)
          walk {}"

section \<open>\<open>get_job_status\<close>\<close>

text \<open>The file system enters through \<open>isfile\<close>, the predicate \<open>os.path.isfile\<close>.\<close>

definition get_job_status :: "(py_str \<Rightarrow> bool) \<Rightarrow> py_str \<Rightarrow> int \<Rightarrow> py_str" where
  "get_job_status isfile directory iteration =
     (let report_file = path_join directory (format_02d iteration @ str ''_aimd_REPORT'')
      in if isfile report_file then str ''completed'' else str ''not_started'')"

section \<open>The table of calculations\<close>

text \<open>
  A Python \<open>dict\<close> is an association list in insertion order: \<open>AList.update\<close> replaces
  the value of a key that is present where it stands and appends a new key at the end.
  Reading a missing key raises \<open>KeyError\<close>.
\<close>

type_synonym status_counts = "(py_str \<times> int) list"
type_synonym ensembles = "(py_str \<times> status_counts) list"
type_synonym temperatures = "(int \<times> ensembles) list"
type_synonym structures = "(py_str \<times> temperatures) list"
type_synonym calculations = "(py_str \<times> structures) list"

definition getitem :: "('k \<times> 'v) list \<Rightarrow> 'k \<Rightarrow> py_error + 'v" where
  "getitem d k = (case map_of d k of None \<Rightarrow> Inl KeyError | Some v \<Rightarrow> Inr v)"

definition has_key :: "('k \<times> 'v) list \<Rightarrow> 'k \<Rightarrow> bool" where
  "has_key d k \<longleftrightarrow> map_of d k \<noteq> None"

definition fresh_counts :: ensembles where
  "fresh_counts =
     [(str ''npt'', [(str ''completed'', 0), (str ''not_started'', 0)]),
      (str ''nvt'', [(str ''completed'', 0), (str ''not_started'', 0)])]"

text \<open>Lines 67 to 73: the three guarded insertions that make sure the entry
  \<open>calculations[functional][base_name][temperature]\<close> exists.\<close>

definition ensure_functional :: "calculations \<Rightarrow> py_str \<Rightarrow> calculations" where
  "ensure_functional calculations functional =
     (if \<not> has_key calculations functional
      then AList.update functional [] calculations else calculations)"

definition ensure_base_name :: "calculations \<Rightarrow> py_str \<Rightarrow> py_str \<Rightarrow> py_error + calculations" where
  "ensure_base_name calculations functional base_name =
     (case getitem calculations functional of
        Inl e \<Rightarrow> Inl e
      | Inr structs \<Rightarrow>
          if \<not> has_key structs base_name
          then Inr (AList.update functional (AList.update base_name [] structs) calculations)
          else Inr calculations)"

definition ensure_temperature ::
  "calculations \<Rightarrow> py_str \<Rightarrow> py_str \<Rightarrow> int \<Rightarrow> py_error + calculations" where
  "ensure_temperature calculations functional base_name temperature =
     (case getitem calculations functional of
        Inl e \<Rightarrow> Inl e
      | Inr structs \<Rightarrow>
          (case getitem structs base_name of
             Inl e \<Rightarrow> Inl e
           | Inr temps \<Rightarrow>
               if \<not> has_key temps temperature
               then Inr (AList.update functional
                           (AList.update base_name
                              (AList.update temperature fresh_counts temps) structs)
                           calculations)
               else Inr calculations))"

definition ensure_entry ::
  "calculations \<Rightarrow> py_str \<Rightarrow> py_str \<Rightarrow> int \<Rightarrow> py_error + calculations" where
  "ensure_entry calculations functional base_name temperature =
     (case ensure_base_name (ensure_functional calculations functional) functional base_name of
        Inl e \<Rightarrow> Inl e
      | Inr calculations' \<Rightarrow> ensure_temperature calculations' functional base_name temperature)"

text \<open>Line 78: \<open>calculations[functional][base_name][temperature][ensemble][job_status] += 1\<close>.
  The four outer subscriptions and the read of the counter may each raise \<open>KeyError\<close>; the
  store goes through the same objects, so the updated counter is seen from the table.\<close>

definition increment ::
  "calculations \<Rightarrow> py_str \<Rightarrow> py_str \<Rightarrow> int \<Rightarrow> py_str \<Rightarrow> py_str \<Rightarrow> py_error + calculations" where
  "increment calculations functional base_name temperature ensemble job_status =
     (case getitem calculations functional of
        Inl e \<Rightarrow> Inl e
      | Inr structs \<Rightarrow>
     (case getitem structs base_name of
        Inl e \<Rightarrow> Inl e
      | Inr temps \<Rightarrow>
     (case getitem temps temperature of
        Inl e \<Rightarrow> Inl e
      | Inr ens \<Rightarrow>
     (case getitem ens ensemble of
        Inl e \<Rightarrow> Inl e
      | Inr counts \<Rightarrow>
     (case getitem counts job_status of
        Inl e \<Rightarrow> Inl e
      | Inr n \<Rightarrow>
          Inr (AList.update functional
                 (AList.update base_name
                    (AList.update temperature
                       (AList.update ensemble
                          (AList.update job_status (n + 1) counts) ens) temps) structs)
                 calculations))))))"

section \<open>\<open>analyze_calculations\<close>\<close>

text \<open>\<open>re.match(r'^\d{2}_aimd_', file)\<close>: two Unicode decimal digits, then the literal
  \<open>_aimd_\<close>.\<close>

definition re_match_aimd :: "py_str \<Rightarrow> bool" where
  "re_match_aimd file \<longleftrightarrow>
     2 \<le> length file \<and> list_all (\<lambda>ch. unicode_decimal ch \<noteq> None) (take 2 file) \<and>
     prefix (str ''_aimd_'') (drop 2 file)"

text \<open>Line 75: \<open>sorted(set(int(file[:2]) for file in files if re.match(...)))\<close>. A failing
  \<open>int\<close> inside the generator would end the run with \<open>ValueError\<close>.\<close>

definition iterations :: "py_str list \<Rightarrow> py_error + int list" where
  "iterations files =
     (case those (map (\<lambda>file. py_int (take 2 file)) (filter re_match_aimd files)) of
        None \<Rightarrow> Inl ValueError
      | Some ns \<Rightarrow> Inr (sorted_list_of_set (set ns)))"

text \<open>Lines 76 to 78: the loop over the iterations of one directory.\<close>

fun count_iterations ::
  "(py_str \<Rightarrow> bool) \<Rightarrow> py_str \<Rightarrow> py_str \<Rightarrow> py_str \<Rightarrow> int \<Rightarrow> py_str \<Rightarrow>
     calculations \<Rightarrow> int list \<Rightarrow> py_error + calculations" where
  "count_iterations isfile root functional base_name temperature ensemble calculations [] =
     Inr calculations"
| "count_iterations isfile root functional base_name temperature ensemble calculations
     (iteration # rest) =
     (case increment calculations functional base_name temperature ensemble
             (get_job_status isfile root iteration) of
        Inl e \<Rightarrow> Inl e
      | Inr calculations' \<Rightarrow>
          count_iterations isfile root functional base_name temperature ensemble
            calculations' rest)"

text \<open>A negative subscript \<open>xs[-k]\<close>, in range when \<open>1 \<le> k \<le> len(xs)\<close>.\<close>

definition neg_index :: "'a list \<Rightarrow> nat \<Rightarrow> 'a" where
  "neg_index xs k = xs ! (length xs - k)"

text \<open>Lines 55 to 78: the body of the loop over \<open>os.walk\<close>, for one triple. With at
  least six parts the five negative subscripts are in range.\<close>

definition process_directory ::
  "(py_str \<Rightarrow> bool) \<Rightarrow> py_str set \<Rightarrow> calculations \<Rightarrow> walk_entry \<Rightarrow> py_error + calculations" where
  "process_directory isfile valid_cif_files calculations entry =
     (case entry of (root, dirs, files) \<Rightarrow>
        if (str ''POSCAR'') \<in> set files then
          (let path_parts = split root (ord CHR ''/'') in
           if 6 \<le> length path_parts then
             (let base_name = neg_index path_parts 5;
                  functional = neg_index path_parts 4;
                  ensemble = neg_index path_parts 3;
                  scaling = neg_index path_parts 2
              in case py_int (neg_index path_parts 1) of
                   None \<Rightarrow> Inl ValueError
                 | Some temperature \<Rightarrow>
                     if base_name \<notin> valid_cif_files then Inr calculations
                     else
                       (case ensure_entry calculations functional base_name temperature of
                          Inl e \<Rightarrow> Inl e
                        | Inr calculations' \<Rightarrow>
                            (case iterations files of
                               Inl e \<Rightarrow> Inl e
                             | Inr its \<Rightarrow>
                                 count_iterations isfile root functional base_name
                                   temperature ensemble calculations' its)))
           else Inr calculations)
        else Inr calculations)"

fun analyze_loop ::
  "(py_str \<Rightarrow> bool) \<Rightarrow> py_str set \<Rightarrow> calculations \<Rightarrow> walk_entry list \<Rightarrow>
     py_error + calculations" where
  "analyze_loop isfile valid_cif_files calculations [] = Inr calculations"
| "analyze_loop isfile valid_cif_files calculations (entry # rest) =
     (case process_directory isfile valid_cif_files calculations entry of
        Inl e \<Rightarrow> Inl e
      | Inr calculations' \<Rightarrow> analyze_loop isfile valid_cif_files calculations' rest)"

definition analyze_calculations ::
  "(py_str \<Rightarrow> bool) \<Rightarrow> walk_entry list \<Rightarrow> py_str set \<Rightarrow> py_error + calculations" where
  "analyze_calculations isfile walk valid_cif_files = analyze_loop isfile valid_cif_files [] walk"

section \<open>\<open>print_summary\<close>\<close>

text \<open>
  Standard output is the list of the strings handed to \<open>print\<close>, one element per call
  (each is followed by a newline on the terminal). An exception leaves what was printed
  before it, so the result is the output together with the error, if any.
\<close>

definition format_row ::
  "py_str \<Rightarrow> py_str \<Rightarrow> py_str \<Rightarrow> py_str \<Rightarrow> py_str \<Rightarrow> py_str \<Rightarrow> py_str" where
  "format_row a b c d e f =
     format_left 25 a @ str '' '' @ format_left 12 b @ str '' '' @ format_left 4 c @ str '' '' @
     format_left 4 d @ str '' '' @ format_left 6 e @ str '' '' @ format_left 6 f"

text \<open>Lines 97 to 100: the four counters of one temperature, in the order
  npt completed, npt not started, nvt completed, nvt not started.\<close>

definition read_counts :: "ensembles \<Rightarrow> py_error + (int \<times> int \<times> int \<times> int)" where
  "read_counts status_counts =
     (case getitem status_counts (str ''npt'') of
        Inl e \<Rightarrow> Inl e
      | Inr npt \<Rightarrow>
     (case getitem npt (str ''completed'') of
        Inl e \<Rightarrow> Inl e
      | Inr npt_completed \<Rightarrow>
     (case getitem npt (str ''not_started'') of
        Inl e \<Rightarrow> Inl e
      | Inr npt_not_started \<Rightarrow>
     (case getitem status_counts (str ''nvt'') of
        Inl e \<Rightarrow> Inl e
      | Inr nvt \<Rightarrow>
     (case getitem nvt (str ''completed'') of
        Inl e \<Rightarrow> Inl e
      | Inr nvt_completed \<Rightarrow>
     (case getitem nvt (str ''not_started'') of
        Inl e \<Rightarrow> Inl e
      | Inr nvt_not_started \<Rightarrow>
          Inr (npt_completed, npt_not_started, nvt_completed, nvt_not_started)))))))"

text \<open>Lines 96 to 106: the loop over \<open>enumerate(temperatures_sorted)\<close>.\<close>

fun print_rows ::
  "py_str \<Rightarrow> nat \<Rightarrow> (int \<times> ensembles) list \<Rightarrow> py_str list \<Rightarrow> py_str list \<times> py_error option" where
  "print_rows structure i [] out = (out, None)"
| "print_rows structure i ((temperature, status_counts) # rest) out =
     (case read_counts status_counts of
        Inl e \<Rightarrow> (out, Some e)
      | Inr (npt_completed, npt_not_started, nvt_completed, nvt_not_started) \<Rightarrow>
          print_rows structure (Suc i) rest
            (out @ [format_row (if i = 0 then structure else []) (str_int temperature)
                      (str_int npt_completed) (str_int nvt_completed)
                      (str_int npt_not_started) (str_int nvt_not_started)]))"

text \<open>Lines 94 to 107: the loop over \<open>structures.items()\<close>. \<open>sorted\<close> with a key is a
  stable sort, as \<open>sort_key\<close> is.\<close>

fun print_structures :: "structures \<Rightarrow> py_str list \<Rightarrow> py_str list \<times> py_error option" where
  "print_structures [] out = (out, None)"
| "print_structures ((structure, temps) # rest) out =
     (let temperatures_sorted = sort_key fst temps
      in case print_rows structure 0 temperatures_sorted out of
           (out', Some e) \<Rightarrow> (out', Some e)
         | (out', None) \<Rightarrow> print_structures rest (out' @ [[]]))"

fun print_functionals :: "calculations \<Rightarrow> py_str list \<Rightarrow> py_str list \<times> py_error option" where
  "print_functionals [] out = (out, None)"
| "print_functionals ((functional, structs) # rest) out =
     (case print_structures structs
             (out @ [(str ''Functional: '') @ functional @ [10],
                     format_row (str ''Structure'') (str ''Temperature'') (str ''npt'') (str ''nvt'') (str ''npt(q)'') (str ''nvt(q)''),
                     replicate 80 (ord CHR ''-'')]) of
        (out', Some e) \<Rightarrow> (out', Some e)
      | (out', None) \<Rightarrow> print_functionals rest out')"

definition print_summary :: "calculations \<Rightarrow> py_str list \<times> py_error option" where
  "print_summary calculations = print_functionals calculations []"

section \<open>Reading the table\<close>

text \<open>The entry \<open>calculations[functional][base_name][temperature]\<close>, if it exists.\<close>

definition lookup_entry :: "calculations \<Rightarrow> py_str \<Rightarrow> py_str \<Rightarrow> int \<Rightarrow> ensembles option" where
  "lookup_entry calculations functional base_name temperature =
     (case map_of calculations functional of
        None \<Rightarrow> None
      | Some structs \<Rightarrow>
          (case map_of structs base_name of
             None \<Rightarrow> None
           | Some temps \<Rightarrow> map_of temps temperature))"

text \<open>The digit a code point stands for (0 for a code point that is no decimal digit), and
  the number written by the first two characters of a file name that matches the iteration
  pattern.\<close>

definition digit_value :: "nat \<Rightarrow> nat" where
  "digit_value ch = (case unicode_decimal ch of None \<Rightarrow> 0 | Some d \<Rightarrow> d)"

definition leading_two_digits :: "py_str \<Rightarrow> int" where
  "leading_two_digits file = int (10 * digit_value (file ! 0) + digit_value (file ! 1))"

text \<open>
  The shape of the tables that \<open>analyze_calculations\<close> builds: every temperature entry has
  exactly the ensemble keys \<open>npt\<close> and \<open>nvt\<close>, and every counter record has the keys
  \<open>completed\<close> and \<open>not_started\<close>.
\<close>

definition well_formed_counts :: "status_counts \<Rightarrow> bool" where
  "well_formed_counts counts \<longleftrightarrow> {str ''completed'', str ''not_started''} \<subseteq> fst ` set counts"

definition well_formed_ensembles :: "ensembles \<Rightarrow> bool" where
  "well_formed_ensembles ens \<longleftrightarrow>
     fst ` set ens = {str ''npt'', str ''nvt''} \<and> (\<forall>(e, counts) \<in> set ens. well_formed_counts counts)"

definition well_formed_temperatures :: "temperatures \<Rightarrow> bool" where
  "well_formed_temperatures temps \<longleftrightarrow> (\<forall>(t, ens) \<in> set temps. well_formed_ensembles ens)"

definition well_formed_structures :: "structures \<Rightarrow> bool" where
  "well_formed_structures structs \<longleftrightarrow>
     (\<forall>(b, temps) \<in> set structs. well_formed_temperatures temps)"

definition well_formed :: "calculations \<Rightarrow> bool" where
  "well_formed calculations \<longleftrightarrow>
     (\<forall>(f, structs) \<in> set calculations. well_formed_structures structs)"

text \<open>The counter of one status under a functional, structure, temperature and ensemble;
  \<open>0\<close> when the table has no such record.\<close>

definition tally :: "calculations \<Rightarrow> py_str \<Rightarrow> py_str \<Rightarrow> int \<Rightarrow> py_str \<Rightarrow> py_str \<Rightarrow> int" where
  "tally calculations functional base_name temperature ensemble job_status =
     (case lookup_entry calculations functional base_name temperature of
        None \<Rightarrow> 0
      | Some ens \<Rightarrow>
          (case map_of ens ensemble of
             None \<Rightarrow> 0
           | Some counts \<Rightarrow> (case map_of counts job_status of None \<Rightarrow> 0 | Some n \<Rightarrow> n)))"

text \<open>The key under which lines 55 to 65 file a directory: functional, structure name,
  temperature and ensemble, for a directory that holds \<open>POSCAR\<close>, has at least six path
  segments, a temperature that parses and a valid structure name.\<close>

definition directory_key ::
  "py_str set \<Rightarrow> walk_entry \<Rightarrow> (py_str \<times> py_str \<times> int \<times> py_str) option" where
  "directory_key valid_cif_files entry =
     (case entry of (root, dirs, files) \<Rightarrow>
        (let path_parts = split root (ord CHR ''/'') in
         if (str ''POSCAR'') \<in> set files \<and> 6 \<le> length path_parts \<and>
            neg_index path_parts 5 \<in> valid_cif_files
         then (case py_int (neg_index path_parts 1) of
                 None \<Rightarrow> None
               | Some temperature \<Rightarrow>
                   Some (neg_index path_parts 4, neg_index path_parts 5, temperature,
                         neg_index path_parts 3))
         else None))"

text \<open>How many distinct iteration numbers of a directory have a given status.\<close>

definition status_count :: "(py_str \<Rightarrow> bool) \<Rightarrow> walk_entry \<Rightarrow> py_str \<Rightarrow> int" where
  "status_count isfile entry job_status =
     (case entry of (root, dirs, files) \<Rightarrow>
        int (card {n \<in> leading_two_digits ` {file \<in> set files. re_match_aimd file}.
                   get_job_status isfile root n = job_status}))"

text \<open>
  The report as the specification describes it. A cell is a counter of one temperature
  entry; a row shows the temperature and the four cells; the block of a structure shows
  its name on the first row only; the report lists, for each functional, the three header
  lines and then the block of each structure, its temperatures sorted, followed by an
  empty line.
\<close>

definition cell :: "ensembles \<Rightarrow> py_str \<Rightarrow> py_str \<Rightarrow> int" where
  "cell status_counts ensemble job_status =
     (case map_of status_counts ensemble of
        None \<Rightarrow> 0
      | Some counts \<Rightarrow> (case map_of counts job_status of None \<Rightarrow> 0 | Some n \<Rightarrow> n))"

definition temperature_row :: "py_str \<Rightarrow> int \<Rightarrow> ensembles \<Rightarrow> py_str" where
  "temperature_row name temperature status_counts =
     format_row name (str_int temperature)
       (str_int (cell status_counts (str ''npt'') (str ''completed'')))
       (str_int (cell status_counts (str ''nvt'') (str ''completed'')))
       (str_int (cell status_counts (str ''npt'') (str ''not_started'')))
       (str_int (cell status_counts (str ''nvt'') (str ''not_started'')))"

definition structure_block :: "py_str \<Rightarrow> temperatures \<Rightarrow> py_str list" where
  "structure_block structure ts =
     (case ts of
        [] \<Rightarrow> []
      | (temperature, status_counts) # rest \<Rightarrow>
          temperature_row structure temperature status_counts #
          map (\<lambda>(temperature, status_counts). temperature_row [] temperature status_counts) rest)"

definition rendered_report :: "calculations \<Rightarrow> py_str list" where
  "rendered_report calculations =
     concat (map (\<lambda>(functional, structs).
                    [(str ''Functional: '') @ functional @ [10],
                     format_row (str ''Structure'') (str ''Temperature'') (str ''npt'') (str ''nvt'') (str ''npt(q)'') (str ''nvt(q)''),
                     replicate 80 (ord CHR ''-'')] @
                    concat (map (\<lambda>(structure, temps).
                                   structure_block structure (sort_key fst temps) @ [[]])
                                structs))
                 calculations)"

section \<open>Properties of \<open>get_job_status\<close>\<close>

lemma str_nat_digit: "n < 10 \<Longrightarrow> str_nat n = [ord CHR ''0'' + n]"
  by (simp add: str_nat.simps)

lemma format_02d_two_digits:
  assumes "0 \<le> n" "n < 100"
  shows "format_02d n = [ord CHR ''0'' + nat n div 10, ord CHR ''0'' + nat n mod 10]"
proof (cases "n < 10")
  case True
  with assms show ?thesis
    by (simp add: format_02d_def str_int_def str_nat_digit)
next
  case False
  with assms have "nat n div 10 < 10" "\<not> nat n < 10" by auto
  with assms show ?thesis
    by (simp add: format_02d_def str_int_def str_nat.simps [of "nat n"] str_nat_digit)
qed

lemma str_nat_digits: "str_nat n \<noteq> [] \<and> list_all ascii_isdigit (str_nat n)"
proof (induction n rule: str_nat.induct)
  case (1 n)
  show ?case
  proof (cases "n < 10")
    case True
    then show ?thesis
      by (simp add: str_nat.simps [of n] ascii_isdigit_def ord_def)
  next
    case False
    moreover have "n mod 10 < 10" by simp
    ultimately show ?thesis
      using 1 by (simp add: str_nat.simps [of n] ascii_isdigit_def ord_def)
  qed
qed

lemma format_02d_head:
  "\<exists>c cs. format_02d n = c # cs \<and> (c = ord CHR ''-'' \<or> ascii_isdigit c)"
proof (cases "n < 0")
  case True
  obtain d ds where ds: "str_nat (nat (- n)) = d # ds"
    using str_nat_digits [of "nat (- n)"] by (cases "str_nat (nat (- n))") auto
  from True have "str_int n = ord CHR ''-'' # d # ds"
    by (simp add: str_int_def ds str_def)
  then have "format_02d n = ord CHR ''-'' # d # ds"
    by (simp add: format_02d_def)
  then show ?thesis
    by blast
next
  case False
  obtain d ds where ds: "str_nat (nat n) = d # ds" and d: "ascii_isdigit d"
    using str_nat_digits [of "nat n"] by (cases "str_nat (nat n)") auto
  from False have s: "str_int n = d # ds"
    by (simp add: str_int_def ds)
  show ?thesis
  proof (cases ds)
    case Nil
    then have "format_02d n = [ord CHR ''0'', d]"
      by (simp add: format_02d_def s)
    moreover have "ascii_isdigit (ord CHR ''0'')"
      by (simp add: ascii_isdigit_def ord_def)
    ultimately show ?thesis
      by blast
  next
    case (Cons e es)
    then have "format_02d n = d # ds"
      by (simp add: format_02d_def s)
    with d show ?thesis
      by blast
  qed
qed

lemma format_02d_no_separator: "\<not> prefix (str ''/'') (format_02d n @ rest)"
proof -
  obtain c cs where f: "format_02d n = c # cs" and c: "c = ord CHR ''-'' \<or> ascii_isdigit c"
    using format_02d_head by blast
  from c have "c \<noteq> ord CHR ''/''"
    by (auto simp: ascii_isdigit_def ord_def)
  then show ?thesis
    by (simp add: f str_def)
qed

lemma path_join_file:
  assumes "\<not> prefix (str ''/'') name"
  shows "path_join directory name =
     directory @ (if directory = [] \<or> last directory = ord CHR ''/'' then [] else str ''/'') @ name"
proof -
  have "suffix (str ''/'') directory \<longleftrightarrow> directory \<noteq> [] \<and> last directory = ord CHR ''/''"
    by (cases directory rule: rev_cases) (auto simp: str_def)
  with assms show ?thesis
    by (auto simp: path_join_def)
qed

lemma get_job_status_path:
  "get_job_status isfile directory n =
     (if isfile (directory @
                 (if directory = [] \<or> last directory = ord CHR ''/'' then [] else str ''/'') @
                 format_02d n @ str ''_aimd_REPORT'')
      then str ''completed'' else str ''not_started'')"
  using format_02d_no_separator [of n "str ''_aimd_REPORT''"]
  by (simp add: get_job_status_def path_join_file)

text \<open>
  Claim C7. For every directory and every iteration number, which the program takes from
  two decimal digits and so lies between 0 and 99, \<open>get_job_status\<close> answers \<open>completed\<close>
  exactly when \<open>os.path.isfile\<close> holds of the path made of the directory, a separator
  unless the directory is empty or ends in one, the tens digit and the units digit of the
  number, and the literal \<open>_aimd_REPORT\<close>; otherwise it answers \<open>not_started\<close>. Nothing
  but this existence test is consulted.
\<close>

theorem get_job_status_report:
  assumes "0 \<le> n" and "n < 100"
  shows "get_job_status isfile directory n =
     (if isfile (directory @
                 (if directory = [] \<or> last directory = ord CHR ''/'' then [] else str ''/'') @
                 [ord CHR ''0'' + nat n div 10, ord CHR ''0'' + nat n mod 10] @
                 str ''_aimd_REPORT'')
      then str ''completed'' else str ''not_started'')"
  unfolding get_job_status_path format_02d_two_digits [OF assms] by simp

theorem get_job_status_report_witness:
  "get_job_status (\<lambda>p. p = str ''calc/03_aimd_REPORT'') (str ''calc'') 3 = str ''completed'' \<and>
   get_job_status (\<lambda>p. p = str ''calc/03_aimd_REPORT'') (str ''calc/'') 3 = str ''completed'' \<and>
   get_job_status (\<lambda>p. p = str ''42_aimd_REPORT'') [] 42 = str ''completed'' \<and>
   get_job_status (\<lambda>p. p = str ''calc/03_aimd_REPORT'') (str ''calc'') 4 = str ''not_started'' \<and>
   get_job_status (\<lambda>p. p = str ''calc/03_aimd_REPORT'') (str ''other'') 3 = str ''not_started'' \<and>
   get_job_status (\<lambda>p. p = str ''03_aimd_REPORT'') (str ''calc'') 3 = str ''not_started'' \<and>
   get_job_status (\<lambda>p. p = str ''calc/3_aimd_REPORT'') (str ''calc'') 3 = str ''not_started'' \<and>
   get_job_status (\<lambda>p. p = str ''calc/03_aimd_log'') (str ''calc'') 3 = str ''not_started''"
proof -
  have r3: "(0::int) \<le> 3" "(3::int) < 100" and r4: "(0::int) \<le> 4" "(4::int) < 100"
    and r42: "(0::int) \<le> 42" "(42::int) < 100"
    by simp_all
  note t3 = get_job_status_report [OF r3] and t4 = get_job_status_report [OF r4]
    and t42 = get_job_status_report [OF r42]
  show ?thesis
    using
      t3 [of "\<lambda>p. p = str ''calc/03_aimd_REPORT''" "str ''calc''"]
      t3 [of "\<lambda>p. p = str ''calc/03_aimd_REPORT''" "str ''calc/''"]
      t42 [of "\<lambda>p. p = str ''42_aimd_REPORT''" "[]"]
      t4 [of "\<lambda>p. p = str ''calc/03_aimd_REPORT''" "str ''calc''"]
      t3 [of "\<lambda>p. p = str ''calc/03_aimd_REPORT''" "str ''other''"]
      t3 [of "\<lambda>p. p = str ''03_aimd_REPORT''" "str ''calc''"]
      t3 [of "\<lambda>p. p = str ''calc/3_aimd_REPORT''" "str ''calc''"]
      t3 [of "\<lambda>p. p = str ''calc/03_aimd_log''" "str ''calc''"]
    by (simp add: str_def ord_def)
qed

section \<open>Properties of the iteration sequence\<close>

lemma decimal_zeros_ascii_or_beyond: "list_all (\<lambda>zero. zero = 48 \<or> 127 \<le> zero) decimal_zeros"
  by code_simp

lemma decimal_zeros_no_space:
  "list_all (\<lambda>zero. list_all (\<lambda>s. s < zero \<or> zero + 10 \<le> s) unicode_spaces) decimal_zeros"
  by code_simp

lemma unicode_decimal_SomeD:
  assumes "unicode_decimal ch = Some d"
  shows "\<exists>zero \<in> set decimal_zeros. zero \<le> ch \<and> ch < zero + 10 \<and> d = ch - zero"
proof -
  from assms obtain zero where
    "find (\<lambda>zero. zero \<le> ch \<and> ch < zero + 10) decimal_zeros = Some zero" and d: "d = ch - zero"
    by (auto simp: unicode_decimal_def split: option.splits)
  then have "zero \<in> set decimal_zeros" "zero \<le> ch \<and> ch < zero + 10"
    by (auto simp: find_Some_iff)
  with d show ?thesis
    by blast
qed

lemma decimal_to_ascii:
  assumes "unicode_decimal ch = Some d"
  shows "d < 10 \<and> to_ascii ch = ord CHR ''0'' + d"
proof -
  from assms obtain zero where zero: "zero \<in> set decimal_zeros" "zero \<le> ch" "ch < zero + 10"
    and d: "d = ch - zero"
    using unicode_decimal_SomeD by blast
  from zero(1) have low: "zero = 48 \<or> 127 \<le> zero"
    using decimal_zeros_ascii_or_beyond by (auto simp: list_all_iff)
  from zero(1) have "\<forall>s \<in> set unicode_spaces. s < zero \<or> zero + 10 \<le> s"
    using decimal_zeros_no_space by (auto simp: list_all_iff)
  with zero(2,3) have nospace: "\<not> unicode_isspace ch"
    by (auto simp: unicode_isspace_def)
  from low show ?thesis
  proof
    assume "zero = 48"
    with zero d show ?thesis
      by (simp add: to_ascii_def ord_def)
  next
    assume "127 \<le> zero"
    with zero d nospace assms show ?thesis
      by (simp add: to_ascii_def)
  qed
qed

lemma py_int_two_digits:
  assumes "unicode_decimal c1 = Some d1" and "unicode_decimal c2 = Some d2"
  shows "py_int [c1, c2] = Some (int (10 * d1 + d2))"
proof -
  from assms have a: "to_ascii c1 = 48 + d1" "to_ascii c2 = 48 + d2" and d: "d1 < 10" "d2 < 10"
    using decimal_to_ascii by (auto simp: ord_def)
  from d have nospace: "\<not> ascii_isspace (48 + d1)"
    by (auto simp: ascii_isspace_def)
  from d have digit: "is_digit_or_underscore (48 + d1)" "is_digit_or_underscore (48 + d2)"
    "ascii_isdigit (48 + d1)" "ascii_isdigit (48 + d2)"
    by (simp_all add: is_digit_or_underscore_def ascii_isdigit_def)
  from d have other: "48 + d1 \<noteq> 45" "48 + d1 \<noteq> 43" "48 + d1 \<noteq> 95" "48 + d2 \<noteq> 95"
    "45 \<noteq> 48 + d1" "43 \<noteq> 48 + d1" "95 \<noteq> 48 + d1" "95 \<noteq> 48 + d2"
    by simp_all
  have nosub: "\<not> sublist [95, 95] [48 + d1, 48 + d2]"
    using other by (simp add: sublist_Cons_right)
  show ?thesis
    unfolding py_int_def
    by (simp add: Let_def a nospace digit other nosub str_def ord_def)
qed

lemma re_match_aimd_iff:
  "re_match_aimd file \<longleftrightarrow>
     (\<exists>c1 c2 d1 d2 rest. file = c1 # c2 # str ''_aimd_'' @ rest \<and>
        unicode_decimal c1 = Some d1 \<and> unicode_decimal c2 = Some d2)"
proof
  assume m: "re_match_aimd file"
  then obtain c1 c2 tail where parts: "file = c1 # c2 # tail"
    by (cases "file"; cases "tl file") (auto simp: re_match_aimd_def)
  with m obtain rest where "tail = str ''_aimd_'' @ rest"
    by (auto simp: re_match_aimd_def prefix_def)
  moreover from m parts obtain d1 d2 where "unicode_decimal c1 = Some d1"
    "unicode_decimal c2 = Some d2"
    by (auto simp: re_match_aimd_def)
  ultimately show "\<exists>c1 c2 d1 d2 rest. file = c1 # c2 # str ''_aimd_'' @ rest \<and>
      unicode_decimal c1 = Some d1 \<and> unicode_decimal c2 = Some d2"
    using parts by blast
next
  assume "\<exists>c1 c2 d1 d2 rest. file = c1 # c2 # str ''_aimd_'' @ rest \<and>
      unicode_decimal c1 = Some d1 \<and> unicode_decimal c2 = Some d2"
  then show "re_match_aimd file"
    by (auto simp: re_match_aimd_def)
qed

lemma py_int_leading:
  assumes "re_match_aimd file"
  shows "py_int (take 2 file) = Some (leading_two_digits file)"
proof -
  from assms obtain c1 c2 d1 d2 rest where "file = c1 # c2 # str ''_aimd_'' @ rest"
    and d: "unicode_decimal c1 = Some d1" "unicode_decimal c2 = Some d2"
    unfolding re_match_aimd_iff by blast
  then show ?thesis
    by (simp add: py_int_two_digits [OF d] leading_two_digits_def digit_value_def)
qed

lemma those_py_int:
  "those (map (\<lambda>file. py_int (take 2 file)) (filter re_match_aimd files)) =
     Some (map leading_two_digits (filter re_match_aimd files))"
  by (induction files) (simp_all add: py_int_leading)

lemma iterations_eq:
  "iterations files =
     Inr (sorted_list_of_set (leading_two_digits ` {file \<in> set files. re_match_aimd file}))"
proof -
  have "set (map leading_two_digits (filter re_match_aimd files)) =
      leading_two_digits ` {file \<in> set files. re_match_aimd file}"
    by auto
  then show ?thesis
    by (simp add: iterations_def those_py_int del: set_map set_filter)
qed

lemma iteration_numbers:
  "leading_two_digits ` {file \<in> set files. re_match_aimd file} =
     {int (10 * d1 + d2) | c1 c2 d1 d2 rest.
        c1 # c2 # str ''_aimd_'' @ rest \<in> set files \<and>
        unicode_decimal c1 = Some d1 \<and> unicode_decimal c2 = Some d2}"
  (is "?L = ?R")
proof
  show "?L \<subseteq> ?R"
  proof
    fix i
    assume "i \<in> ?L"
    then obtain name where f: "name \<in> set files" "re_match_aimd name"
      and i: "i = leading_two_digits name"
      by blast
    from f(2) obtain c1 c2 d1 d2 rest where parts: "name = c1 # c2 # str ''_aimd_'' @ rest"
      and d: "unicode_decimal c1 = Some d1" "unicode_decimal c2 = Some d2"
      unfolding re_match_aimd_iff by blast
    from i parts d have "i = int (10 * d1 + d2)"
      by (simp add: leading_two_digits_def digit_value_def)
    with f(1) parts d show "i \<in> ?R"
      by blast
  qed
  show "?R \<subseteq> ?L"
  proof
    fix i
    assume "i \<in> ?R"
    then obtain c1 c2 d1 d2 rest where
      f: "c1 # c2 # str ''_aimd_'' @ rest \<in> set files"
      and d: "unicode_decimal c1 = Some d1" "unicode_decimal c2 = Some d2"
      and i: "i = int (10 * d1 + d2)"
      by blast
    from d have "re_match_aimd (c1 # c2 # str ''_aimd_'' @ rest)"
      unfolding re_match_aimd_iff by blast
    moreover from d i have "i = leading_two_digits (c1 # c2 # str ''_aimd_'' @ rest)"
      by (simp add: leading_two_digits_def digit_value_def)
    ultimately show "i \<in> ?L"
      using f by blast
  qed
qed

lemma iterations_range:
  assumes "iterations files = Inr its" and "i \<in> set its"
  shows "0 \<le> i \<and> i < 100"
proof -
  from assms have "i \<in> leading_two_digits ` {file \<in> set files. re_match_aimd file}"
    by (auto simp: iterations_eq)
  then obtain c1 c2 d1 d2 where "unicode_decimal c1 = Some d1" "unicode_decimal c2 = Some d2"
    and i: "i = int (10 * d1 + d2)"
    unfolding iteration_numbers by blast
  then have "d1 < 10" "d2 < 10"
    using decimal_to_ascii by blast+
  with i show ?thesis
    by simp
qed

text \<open>
  Claim C6. The iteration sequence of a directory is never an error; it is strictly
  ascending (sorted, no duplicates), and its elements are exactly the numbers written by
  the two leading decimal digits of the file names that consist of two decimal digits,
  the literal \<open>_aimd_\<close> and any rest. For the files \<open>00_aimd_log\<close>, \<open>00_aimd_REPORT\<close>,
  \<open>02_aimd_log\<close> it is \<open>[0, 2]\<close>; names that miss the pattern are left out, whatever the
  order of the listing, and decimal digits of other scripts count as \<open>re\<close> and \<open>int\<close>
  count them.
\<close>

theorem iterations_sorted_distinct:
  "(\<exists>its. iterations files = Inr its \<and> sorted_wrt (<) its \<and>
      set its =
        {int (10 * d1 + d2) | c1 c2 d1 d2 rest.
           c1 # c2 # str ''_aimd_'' @ rest \<in> set files \<and>
           unicode_decimal c1 = Some d1 \<and> unicode_decimal c2 = Some d2}) \<and>
   iterations [str ''00_aimd_log'', str ''00_aimd_REPORT'', str ''02_aimd_log''] = Inr [0, 2] \<and>
   iterations [str ''10_aimd_out'', str ''POSCAR'', str ''02_aimd_log'', str ''03_aimx_log'',
               str ''4_aimd_log'', str ''x05_aimd_log'', str ''06aimd_log'', str ''07-aimd_log'',
               str ''02_aimd_REPORT'', [1632, 1633] @ str ''_aimd_log'', str ''00_aimd_'',
               [65297, 50] @ str ''_aimd_log'', [178, 179] @ str ''_aimd_log''] =
     Inr [0, 1, 2, 10, 12]"
proof (intro conjI)
  show "\<exists>its. iterations files = Inr its \<and> sorted_wrt (<) its \<and>
      set its =
        {int (10 * d1 + d2) | c1 c2 d1 d2 rest.
           c1 # c2 # str ''_aimd_'' @ rest \<in> set files \<and>
           unicode_decimal c1 = Some d1 \<and> unicode_decimal c2 = Some d2}"
    unfolding iteration_numbers [symmetric]
    by (simp add: iterations_eq strict_sorted_iff)
  show "iterations [str ''00_aimd_log'', str ''00_aimd_REPORT'', str ''02_aimd_log''] = Inr [0, 2]"
    by code_simp
  show "iterations [str ''10_aimd_out'', str ''POSCAR'', str ''02_aimd_log'', str ''03_aimx_log'',
               str ''4_aimd_log'', str ''x05_aimd_log'', str ''06aimd_log'', str ''07-aimd_log'',
               str ''02_aimd_REPORT'', [1632, 1633] @ str ''_aimd_log'', str ''00_aimd_'',
               [65297, 50] @ str ''_aimd_log'', [178, 179] @ str ''_aimd_log''] =
     Inr [0, 1, 2, 10, 12]"
    by code_simp
qed

theorem iterations_sorted_distinct_witness:
  "\<exists>its. iterations [str ''02_aimd_log'', str ''POSCAR'', str ''00_aimd_log'',
                       str ''00_aimd_REPORT'', str ''1_aimd_log''] = Inr its \<and>
         sorted_wrt (<) its"
  using iterations_sorted_distinct
    [of "[str ''02_aimd_log'', str ''POSCAR'', str ''00_aimd_log'', str ''00_aimd_REPORT'',
          str ''1_aimd_log'']"]
  by blast

section \<open>Properties of the directory walk\<close>

lemma analyze_loop_append:
  "analyze_loop isfile valid c (xs @ ys) =
     (case analyze_loop isfile valid c xs of
        Inl e \<Rightarrow> Inl e
      | Inr c' \<Rightarrow> analyze_loop isfile valid c' ys)"
  by (induction xs arbitrary: c) (simp_all split: sum.splits)

lemma ensure_entry_lookup:
  "\<exists>c'. ensure_entry c f b t = Inr c' \<and>
     lookup_entry c' f b t =
       Some (case lookup_entry c f b t of None \<Rightarrow> fresh_counts | Some e \<Rightarrow> e)"
  by (auto simp: ensure_entry_def ensure_functional_def ensure_base_name_def
      ensure_temperature_def getitem_def has_key_def lookup_entry_def AList.update_conv'
      split: option.splits)

text \<open>
  Claim C5. A directory that holds \<open>POSCAR\<close> (or not) and whose path splits into fewer
  than six segments is skipped without an error: the step returns the table it was given,
  and the whole run gives the same result as the run without that directory.
\<close>

theorem under_depth_skipped:
  assumes "length (split root (ord CHR ''/'')) < 6"
  shows "process_directory isfile valid c (root, dirs, files) = Inr c \<and>
     analyze_calculations isfile (pre @ (root, dirs, files) # post) valid =
       analyze_calculations isfile (pre @ post) valid"
proof -
  have step: "\<And>c. process_directory isfile valid c (root, dirs, files) = Inr c"
    using assms by (simp add: process_directory_def Let_def)
  then show ?thesis
    by (simp add: analyze_calculations_def analyze_loop_append split: sum.splits)
qed

theorem under_depth_skipped_witness:
  "length (split (str ''A/PBE/npt/1.0/300'') (ord CHR ''/'')) < 6 \<and>
   process_directory (\<lambda>p. False) {str ''A''} []
     (str ''A/PBE/npt/1.0/300'', [], [str ''POSCAR'', str ''00_aimd_log'']) = Inr [] \<and>
   analyze_calculations (\<lambda>p. False)
     [(str ''A/PBE/npt/1.0/300'', [], [str ''POSCAR'', str ''00_aimd_log''])] {str ''A''} = Inr []"
proof -
  have h: "length (split (str ''A/PBE/npt/1.0/300'') (ord CHR ''/'')) < 6"
    by code_simp
  from under_depth_skipped [OF h, where pre = "[]" and post = "[]" and c = "[]"
      and isfile = "\<lambda>p. False" and valid = "{str ''A''}" and dirs = "[]"
      and files = "[str ''POSCAR'', str ''00_aimd_log'']"] h
  show ?thesis
    by (simp add: analyze_calculations_def)
qed

text \<open>
  Claim C4. A directory with \<open>POSCAR\<close> and at least six path segments whose structure
  name (fifth segment from the end) is not in the valid set adds nothing to the table,
  whatever files it holds: the step returns the table unchanged (or the run has already
  failed on the temperature segment, which is parsed before the membership test), and
  when the temperature parses the run equals the run without that directory.
\<close>

theorem invalid_structure_skipped:
  assumes "str ''POSCAR'' \<in> set files"
    and "6 \<le> length (split root (ord CHR ''/''))"
    and "neg_index (split root (ord CHR ''/'')) 5 \<notin> valid"
  shows "process_directory isfile valid c (root, dirs, files) =
           (if py_int (neg_index (split root (ord CHR ''/'')) 1) = None
            then Inl ValueError else Inr c) \<and>
         (py_int (neg_index (split root (ord CHR ''/'')) 1) \<noteq> None \<longrightarrow>
            analyze_calculations isfile (pre @ (root, dirs, files) # post) valid =
              analyze_calculations isfile (pre @ post) valid)"
proof -
  have step: "\<And>c. process_directory isfile valid c (root, dirs, files) =
           (if py_int (neg_index (split root (ord CHR ''/'')) 1) = None
            then Inl ValueError else Inr c)"
    using assms by (auto simp add: process_directory_def Let_def split: option.splits)
  then show ?thesis
    by (simp add: analyze_calculations_def analyze_loop_append split: sum.splits)
qed

theorem invalid_structure_skipped_witness:
  "process_directory (\<lambda>p. True) {str ''A''} []
     (str ''root/B/PBE/npt/1.0/300'', [], [str ''POSCAR'', str ''00_aimd_log'', str ''01_aimd_log'']) = Inr [] \<and>
   analyze_calculations (\<lambda>p. True)
     [(str ''root/B/PBE/npt/1.0/300'', [], [str ''POSCAR'', str ''00_aimd_log'', str ''01_aimd_log''])] {str ''A''} =
   Inr []"
proof -
  have h1: "str ''POSCAR'' \<in> set [str ''POSCAR'', str ''00_aimd_log'', str ''01_aimd_log'']"
    by code_simp
  have h2: "6 \<le> length (split (str ''root/B/PBE/npt/1.0/300'') (ord CHR ''/''))"
    by code_simp
  have h3: "neg_index (split (str ''root/B/PBE/npt/1.0/300'') (ord CHR ''/'')) 5 \<notin> {str ''A''}"
    by code_simp
  have h4: "py_int (neg_index (split (str ''root/B/PBE/npt/1.0/300'') (ord CHR ''/'')) 1) = Some 300"
    by code_simp
  from invalid_structure_skipped [OF h1 h2 h3, where pre = "[]" and post = "[]"
      and c = "[]" and isfile = "\<lambda>p. True" and dirs = "[]"] h4
  show ?thesis
    by (simp add: analyze_calculations_def)
qed

lemma py_int_examples:
  "map py_int [str ''300'', str ''0300'', str ''+300'', str ''-300'', str '' 300 '', str ''3_00'',
               [160, 51, 48, 48], [51, 48, 48, 133], [1635, 1632, 1632], [65299, 48, 1776]] =
     [Some 300, Some 300, Some 300, Some (- 300), Some 300, Some 300,
      Some 300, Some 300, Some 300, Some 300] \<and>
   map py_int [[], str ''300K'', str ''3.0'', str ''3e2'', str ''- 300'', str ''+-3'', str ''_300'',
               str ''300_'', str ''3__00'', str ''3 00'', str ''0x10'', [28, 51, 48, 48],
               [51, 48, 48, 31], [51, 0], [127, 51], [178], [9312]] =
     replicate 17 None"
  by code_simp

text \<open>
  Claim C1, as amended. When a directory with \<open>POSCAR\<close> and at least six path segments
  has a last segment that \<open>int\<close> rejects, the step raises \<open>ValueError\<close>; the run over any
  walk that contains the directory fails at that directory at the latest, whatever follows
  it, and never returns a table. So a run that returns a table has met only temperature
  segments that \<open>int\<close> accepts: decimal digits, possibly with a sign, with white space
  around them, or with single underscores between them.
\<close>

theorem malformed_temperature_aborts:
  assumes "str ''POSCAR'' \<in> set files"
    and "6 \<le> length (split root (ord CHR ''/''))"
    and "py_int (neg_index (split root (ord CHR ''/'')) 1) = None"
  shows "process_directory isfile valid c (root, dirs, files) = Inl ValueError \<and>
         analyze_calculations isfile (pre @ (root, dirs, files) # post) valid =
           (case analyze_calculations isfile pre valid of
              Inl e \<Rightarrow> Inl e
            | Inr c' \<Rightarrow> Inl ValueError) \<and>
         (\<forall>c'. analyze_calculations isfile (pre @ (root, dirs, files) # post) valid \<noteq> Inr c')"
proof -
  have step: "\<And>c. process_directory isfile valid c (root, dirs, files) = Inl ValueError"
    using assms by (simp add: process_directory_def Let_def)
  then show ?thesis
    by (simp add: analyze_calculations_def analyze_loop_append split: sum.splits)
qed

theorem malformed_temperature_aborts_witness:
  "analyze_calculations (\<lambda>p. False)
     [(str ''root/A/PBE/npt/1.0/300K'', [], [str ''POSCAR'']),
      (str ''root/A/PBE/npt/1.0/400'', [], [str ''POSCAR''])] {str ''A''} = Inl ValueError \<and>
   process_directory (\<lambda>p. False) {str ''A''} []
     (str ''root/A/PBE/npt/1.0/'' @ [28, 51, 48, 48], [], [str ''POSCAR'']) = Inl ValueError \<and>
   map py_int [str ''300'', str ''0300'', str ''+300'', str ''-300'', str '' 300 '', str ''3_00'',
               [160, 51, 48, 48], [51, 48, 48, 133], [1635, 1632, 1632], [65299, 48, 1776]] =
     [Some 300, Some 300, Some 300, Some (- 300), Some 300, Some 300,
      Some 300, Some 300, Some 300, Some 300] \<and>
   map py_int [[], str ''300K'', str ''3.0'', str ''3e2'', str ''- 300'', str ''+-3'', str ''_300'',
               str ''300_'', str ''3__00'', str ''3 00'', str ''0x10'', [28, 51, 48, 48],
               [51, 48, 48, 31], [51, 0], [127, 51], [178], [9312]] =
     replicate 17 None"
proof -
  have h1: "str ''POSCAR'' \<in> set [str ''POSCAR'']"
    by code_simp
  have h2: "6 \<le> length (split (str ''root/A/PBE/npt/1.0/300K'') (ord CHR ''/''))"
    by code_simp
  have h3: "py_int (neg_index (split (str ''root/A/PBE/npt/1.0/300K'') (ord CHR ''/'')) 1) = None"
    by code_simp
  have g2: "6 \<le> length (split (str ''root/A/PBE/npt/1.0/'' @ [28, 51, 48, 48]) (ord CHR ''/''))"
    by code_simp
  have g3: "py_int (neg_index (split (str ''root/A/PBE/npt/1.0/'' @ [28, 51, 48, 48])
      (ord CHR ''/'')) 1) = None"
    by code_simp
  from malformed_temperature_aborts [OF h1 h2 h3, where pre = "[]"
      and post = "[(str ''root/A/PBE/npt/1.0/400'', [], [str ''POSCAR''])]"
      and isfile = "\<lambda>p. False" and valid = "{str ''A''}" and dirs = "[]"]
  have "analyze_calculations (\<lambda>p. False)
     [(str ''root/A/PBE/npt/1.0/300K'', [], [str ''POSCAR'']),
      (str ''root/A/PBE/npt/1.0/400'', [], [str ''POSCAR''])] {str ''A''} = Inl ValueError"
    by (simp add: analyze_calculations_def)
  moreover from malformed_temperature_aborts [OF h1 g2 g3, where c = "[]"
      and isfile = "\<lambda>p. False" and valid = "{str ''A''}" and dirs = "[]"]
  have "process_directory (\<lambda>p. False) {str ''A''} []
     (str ''root/A/PBE/npt/1.0/'' @ [28, 51, 48, 48], [], [str ''POSCAR'']) = Inl ValueError"
    by (rule conjunct1)
  ultimately show ?thesis
    using py_int_examples by (simp only: simp_thms)
qed

text \<open>
  Claim C1 as stated, with success only for purely numeric names, fails: \<open>int\<close> accepts
  the segment \<open>3_00\<close>, so the run succeeds and files the directory under temperature 300.
\<close>

theorem temperature_segment_counterexample:
  "analyze_calculations (\<lambda>p. False)
     [(str ''root/A/PBE/npt/1.0/3_00'', [], [str ''POSCAR''])] {str ''A''} =
     Inr [(str ''PBE'', [(str ''A'', [(300, fresh_counts)])])] \<and>
   \<not> list_all (\<lambda>ch. unicode_decimal ch \<noteq> None) (str ''3_00'')"
  by code_simp

text \<open>
  Claim C10. A directory with \<open>POSCAR\<close>, at least six path segments, a valid structure
  name and a temperature that parses, but with no file name made of two decimal digits,
  the literal \<open>_aimd_\<close> and any rest, raises no error whatever its ensemble segment is;
  afterwards the entry \<open>[functional][base_name][temperature]\<close> exists: it is the entry
  that was there before, or else a new one whose \<open>npt\<close> and \<open>nvt\<close> records both hold
  \<open>completed\<close> 0 and \<open>not_started\<close> 0.
\<close>

theorem no_iterations_no_error:
  assumes "str ''POSCAR'' \<in> set files"
    and "6 \<le> length (split root (ord CHR ''/''))"
    and "neg_index (split root (ord CHR ''/'')) 5 \<in> valid"
    and "py_int (neg_index (split root (ord CHR ''/'')) 1) = Some t"
    and "\<forall>c1 c2 rest. c1 # c2 # str ''_aimd_'' @ rest \<in> set files \<longrightarrow>
           unicode_decimal c1 = None \<or> unicode_decimal c2 = None"
  shows "\<exists>c'. process_directory isfile valid c (root, dirs, files) = Inr c' \<and>
           lookup_entry c' (neg_index (split root (ord CHR ''/'')) 4)
               (neg_index (split root (ord CHR ''/'')) 5) t =
             Some (case lookup_entry c (neg_index (split root (ord CHR ''/'')) 4)
                          (neg_index (split root (ord CHR ''/'')) 5) t of
                     None \<Rightarrow>
                       [(str ''npt'', [(str ''completed'', 0), (str ''not_started'', 0)]),
                        (str ''nvt'', [(str ''completed'', 0), (str ''not_started'', 0)])]
                   | Some e \<Rightarrow> e)"
proof -
  let ?f = "neg_index (split root (ord CHR ''/'')) 4"
  let ?b = "neg_index (split root (ord CHR ''/'')) 5"
  have "\<not> re_match_aimd name" if "name \<in> set files" for name
    using that assms(5) unfolding re_match_aimd_iff by fastforce
  then have "filter re_match_aimd files = []"
    by (simp add: filter_empty_conv)
  then have its: "iterations files = Inr []"
    by (simp add: iterations_def)
  obtain c' where c': "ensure_entry c ?f ?b t = Inr c'"
    "lookup_entry c' ?f ?b t =
       Some (case lookup_entry c ?f ?b t of None \<Rightarrow> fresh_counts | Some e \<Rightarrow> e)"
    using ensure_entry_lookup by blast
  have "process_directory isfile valid c (root, dirs, files) = Inr c'"
    using assms(1-4) its c'(1) by (simp add: process_directory_def Let_def)
  with c'(2) show ?thesis
    unfolding fresh_counts_def by blast
qed

theorem no_iterations_no_error_witness:
  "\<exists>c'. process_directory (\<lambda>p. False) {str ''A''} []
           (str ''root/A/PBE/nve/1.0/300'', [],
            [str ''POSCAR'', str ''INCAR'', str ''0_aimd_log'', str ''ab_aimd_log'',
             str ''00_aimx_log'', str ''x00_aimd_log'']) = Inr c' \<and>
         lookup_entry c' (str ''PBE'') (str ''A'') 300 =
           Some [(str ''npt'', [(str ''completed'', 0), (str ''not_started'', 0)]),
                 (str ''nvt'', [(str ''completed'', 0), (str ''not_started'', 0)])]"
proof -
  let ?files = "[str ''POSCAR'', str ''INCAR'', str ''0_aimd_log'', str ''ab_aimd_log'',
                 str ''00_aimx_log'', str ''x00_aimd_log'']"
  have h1: "str ''POSCAR'' \<in> set ?files"
    by code_simp
  have h2: "6 \<le> length (split (str ''root/A/PBE/nve/1.0/300'') (ord CHR ''/''))"
    by code_simp
  have h3: "neg_index (split (str ''root/A/PBE/nve/1.0/300'') (ord CHR ''/'')) 5 \<in> {str ''A''}"
    by code_simp
  have h4: "py_int (neg_index (split (str ''root/A/PBE/nve/1.0/300'') (ord CHR ''/'')) 1) = Some 300"
    by code_simp
  have "filter re_match_aimd ?files = []"
    by code_simp
  then have "\<forall>name \<in> set ?files. \<not> re_match_aimd name"
    by (simp only: filter_empty_conv)
  then have h5: "\<forall>c1 c2 rest. c1 # c2 # str ''_aimd_'' @ rest \<in> set ?files \<longrightarrow>
      unicode_decimal c1 = None \<or> unicode_decimal c2 = None"
    unfolding re_match_aimd_iff by (metis option.exhaust)
  have f: "neg_index (split (str ''root/A/PBE/nve/1.0/300'') (ord CHR ''/'')) 4 = str ''PBE''"
    "neg_index (split (str ''root/A/PBE/nve/1.0/300'') (ord CHR ''/'')) 5 = str ''A''"
    by code_simp+
  from no_iterations_no_error [OF h1 h2 h3 h4 h5, where c = "[]"
      and isfile = "\<lambda>p. False" and dirs = "[]"]
  show ?thesis
    unfolding f by (simp add: lookup_entry_def)
qed

section \<open>Properties of \<open>get_valid_cif_files\<close>\<close>

lemma rfind_bounds: "- 1 \<le> rfind xs c \<and> rfind xs c < int (length xs)"
  by (induction xs) (auto simp: Let_def)

lemma rfind_absent: "c \<notin> set xs \<Longrightarrow> rfind xs c = - 1"
  by (induction xs) (auto simp: Let_def)

lemma rfind_append:
  "rfind (xs @ ys) c = (if 0 \<le> rfind ys c then int (length xs) + rfind ys c else rfind xs c)"
  using rfind_bounds [of ys c] by (induction xs) (auto simp: Let_def)

lemma skip_leading_dots_iff:
  "skip_leading_dots p i n \<longleftrightarrow> (\<exists>j. i \<le> j \<and> j < n \<and> p ! j \<noteq> ord CHR ''.'')"
proof (induction p i n rule: skip_leading_dots.induct)
  case (1 p i n)
  show ?case
  proof (cases "i < n")
    case False
    then show ?thesis by (simp add: skip_leading_dots.simps [of p i n])
  next
    case True
    show ?thesis
    proof (cases "p ! i \<noteq> ord CHR ''.''")
      case nd: True
      with True show ?thesis
        by (auto simp: skip_leading_dots.simps [of p i n])
    next
      case False
      with True 1 have "skip_leading_dots p i n \<longleftrightarrow> (\<exists>j. Suc i \<le> j \<and> j < n \<and> p ! j \<noteq> ord CHR ''.'')"
        by (simp add: skip_leading_dots.simps [of p i n])
      also have "\<dots> \<longleftrightarrow> (\<exists>j. i \<le> j \<and> j < n \<and> p ! j \<noteq> ord CHR ''.'')"
        using False by (metis Suc_leD Suc_leI le_neq_implies_less)
      finally show ?thesis .
    qed
  qed
qed

lemma prefix_splitext: "prefix (fst (splitext p)) p"
  by (simp add: splitext_def Let_def take_is_prefix)

lemma sublist_prefix: "sublist m a \<Longrightarrow> prefix a p \<Longrightarrow> sublist m p"
  unfolding sublist_def prefix_def by (metis append.assoc)

lemma splitext_cif:
  assumes "ord CHR ''/'' \<notin> set X" and "\<exists>c \<in> set X. c \<noteq> ord CHR ''.''"
  shows "splitext (X @ str ''.cif'') = (X, str ''.cif'')"
proof -
  have sep: "rfind (X @ str ''.cif'') (ord CHR ''/'') = - 1"
    using assms(1) by (simp add: rfind_append rfind_absent str_def ord_def)
  have dot: "rfind (X @ str ''.cif'') (ord CHR ''.'') = int (length X)"
    by (simp add: rfind_append str_def ord_def)
  from assms(2) obtain j where "j < length X" "X ! j \<noteq> ord CHR ''.''"
    by (auto simp: in_set_conv_nth)
  then have "skip_leading_dots (X @ str ''.cif'') 0 (length X)"
    by (auto simp: skip_leading_dots_iff nth_append)
  then show ?thesis
    unfolding splitext_def sep dot by (simp add: str_def ord_def)
qed

lemma splitext_dont_use:
  "splitext (X @ str ''_dont_use.cif'') = (X @ (str ''_dont_use''), str ''.cif'')"
proof -
  let ?p = "X @ (str ''_dont_use.cif'')"
  have sep: "rfind ?p (ord CHR ''/'') = rfind X (ord CHR ''/'')"
    by (simp add: rfind_append str_def ord_def)
  have dot: "rfind ?p (ord CHR ''.'') = int (length X) + 9"
    by (simp add: rfind_append str_def ord_def)
  have b: "rfind X (ord CHR ''/'') < int (length X)" "- 1 \<le> rfind X (ord CHR ''/'')"
    using rfind_bounds [of X] by auto
  then have "nat (rfind X (ord CHR ''/'') + 1) \<le> length X" by auto
  moreover have "?p ! length X \<noteq> ord CHR ''.''" by (simp add: nth_append str_def ord_def)
  ultimately have "skip_leading_dots ?p (nat (rfind X (ord CHR ''/'') + 1)) (nat (int (length X) + 9))"
    unfolding skip_leading_dots_iff by (intro exI [of _ "length X"]) auto
  moreover have "nat (int (length X) + 9) = length X + 9" by simp
  ultimately show ?thesis
    using b unfolding splitext_def sep dot by (simp add: str_def ord_def)
qed

lemma fold_files:
  "fold (\<lambda>file acc. if P file then insert (g file) acc else acc) files acc =
     acc \<union> g ` {file \<in> set files. P file}"
  by (induction files arbitrary: acc) auto

lemma fold_walk:
  "fold (\<lambda>(root, dirs, files) acc.
           fold (\<lambda>file acc. if P file then insert (g file) acc else acc) files acc) walk acc =
     acc \<union> g ` {file \<in> files_of walk. P file}"
proof (induction walk arbitrary: acc)
  case Nil
  then show ?case by (simp add: files_of_def)
next
  case (Cons e walk)
  obtain root dirs files where e: "e = (root, dirs, files)" by (cases e)
  let ?step = "\<lambda>(root, dirs, files) acc.
           fold (\<lambda>file acc. if P file then insert (g file) acc else acc) files acc"
  have "fold ?step (e # walk) acc = fold ?step walk (acc \<union> g ` {file \<in> set files. P file})"
    by (simp add: e fold_files)
  also have "\<dots> = (acc \<union> g ` {file \<in> set files. P file}) \<union> g ` {file \<in> files_of walk. P file}"
    by (rule Cons.IH)
  also have "\<dots> = acc \<union> g ` {file \<in> files_of (e # walk). P file}"
    by (auto simp: files_of_def e)
  finally show ?case .
qed

lemma get_valid_cif_files_eq:
  "get_valid_cif_files walk =
     (\<lambda>file. fst (splitext file)) `
       {file \<in> files_of walk. suffix (str ''.cif'') file \<and> \<not> sublist (str ''_dont_use'') file}"
  unfolding get_valid_cif_files_def by (simp add: fold_walk)

lemma no_marker_in_valid:
  assumes "name \<in> get_valid_cif_files walk"
  shows "\<not> sublist (str ''_dont_use'') name"
proof -
  from assms obtain f where "name = fst (splitext f)" "\<not> sublist (str ''_dont_use'') f"
    by (auto simp: get_valid_cif_files_eq)
  then show ?thesis
    using prefix_splitext sublist_prefix by blast
qed

text \<open>
  Claim C3, as amended. The result is exactly the set of \<open>os.path.splitext\<close> roots of the
  file names in the walk that end in \<open>.cif\<close> and do not contain \<open>_dont_use\<close>. The base
  name of a file \<open>X_dont_use.cif\<close> is never in it. For a file \<open>Y.cif\<close> without the marker,
  \<open>Y\<close> is in the set (a set holds it once, however many directories have such a file),
  provided \<open>Y\<close> has a character other than a dot; file names hold no path separator.
\<close>

theorem valid_names_characterised:
  "get_valid_cif_files walk =
     (\<lambda>file. fst (splitext file)) `
       {file \<in> files_of walk. suffix (str ''.cif'') file \<and> \<not> sublist (str ''_dont_use'') file} \<and>
   fst (splitext (X @ str ''_dont_use.cif'')) \<notin> get_valid_cif_files walk \<and>
   (Y @ (str ''.cif'') \<in> files_of walk \<and> \<not> sublist (str ''_dont_use'') (Y @ str ''.cif'') \<and>
      (ord CHR ''/'') \<notin> set Y \<and> (\<exists>c \<in> set Y. c \<noteq> ord CHR ''.'') \<longrightarrow>
    Y \<in> get_valid_cif_files walk)"
proof (intro conjI impI)
  show "get_valid_cif_files walk =
     (\<lambda>file. fst (splitext file)) `
       {file \<in> files_of walk. suffix (str ''.cif'') file \<and> \<not> sublist (str ''_dont_use'') file}"
    by (rule get_valid_cif_files_eq)
  show "fst (splitext (X @ str ''_dont_use.cif'')) \<notin> get_valid_cif_files walk"
    using no_marker_in_valid [of "X @ (str ''_dont_use'')" walk] by (auto simp: splitext_dont_use)
  assume a: "Y @ (str ''.cif'') \<in> files_of walk \<and> \<not> sublist (str ''_dont_use'') (Y @ str ''.cif'') \<and>
      (ord CHR ''/'') \<notin> set Y \<and> (\<exists>c \<in> set Y. c \<noteq> ord CHR ''.'')"
  then have "fst (splitext (Y @ str ''.cif'')) = Y"
    by (simp add: splitext_cif)
  moreover have "suffix (str ''.cif'') (Y @ str ''.cif'')" by (simp add: suffix_def)
  ultimately show "Y \<in> get_valid_cif_files walk"
    using a unfolding get_valid_cif_files_eq by force
qed

theorem valid_names_characterised_witness:
  "str ''A'' \<in> get_valid_cif_files
      [(str ''root'', [str ''sub''], [str ''A.cif'', str ''B_dont_use.cif'']), (str ''root/sub'', [], [str ''A.cif''])] \<and>
   (str ''B_dont_use'') \<notin> get_valid_cif_files
      [(str ''root'', [str ''sub''], [str ''A.cif'', str ''B_dont_use.cif'']), (str ''root/sub'', [], [str ''A.cif''])]"
proof -
  let ?walk = "[(str ''root'', [str ''sub''], [str ''A.cif'', str ''B_dont_use.cif'']),
               (str ''root/sub'', [], [str ''A.cif''])]"
  have h: "(str ''A'') @ (str ''.cif'') \<in> files_of ?walk \<and> \<not> sublist (str ''_dont_use'') (str ''A'' @ str ''.cif'') \<and>
      (ord CHR ''/'') \<notin> set (str ''A'') \<and> (\<exists>c \<in> set (str ''A''). c \<noteq> ord CHR ''.'')"
    by code_simp
  have b: "fst (splitext (str ''B'' @ str ''_dont_use.cif'')) = str ''B_dont_use''"
    by code_simp
  note t = valid_names_characterised [where walk = ?walk and X = "(str ''B'')" and Y = "(str ''A'')"]
  from t h have "str ''A'' \<in> get_valid_cif_files ?walk"
    by blast
  moreover from t have "fst (splitext (str ''B'' @ str ''_dont_use.cif'')) \<notin> get_valid_cif_files ?walk"
    by blast
  ultimately show ?thesis
    using b by simp
qed

text \<open>
  Claim C3 as stated fails for names made of dots only: \<open>splitext\<close> keeps leading dots in
  the root, so the file \<open>..cif\<close> contributes \<open>..cif\<close>, not \<open>.\<close>, and the file \<open>.cif\<close>
  contributes \<open>.cif\<close>, not the empty name.
\<close>

theorem dot_names_counterexample:
  "str ''.'' \<notin> get_valid_cif_files [(str ''root'', [], [str ''..cif''])] \<and>
   [] \<notin> get_valid_cif_files [(str ''root'', [], [str ''.cif''])] \<and>
   get_valid_cif_files [(str ''root'', [], [str ''.cif''])] = {str ''.cif''}"
  by code_simp

section \<open>The table invariant\<close>

lemma set_update_subset: "set (AList.update k v al) \<subseteq> insert (k, v) (set al)"
  by (induction al) auto

lemma values_update:
  assumes "\<forall>(k, v) \<in> set al. P v" and "P v'"
  shows "\<forall>(k, v) \<in> set (AList.update k' v' al). P v"
  using assms set_update_subset [of k' v' al] by auto

lemma map_of_values:
  assumes "\<forall>(k, v) \<in> set al. P v" and "map_of al k = Some v"
  shows "P v"
  using assms by (auto dest: map_of_SomeD)

lemma well_formed_fresh: "well_formed_ensembles fresh_counts"
  by (simp add: well_formed_ensembles_def well_formed_counts_def fresh_counts_def)

lemma well_formed_update:
  assumes "well_formed c" and "well_formed_structures structs"
  shows "well_formed (AList.update f structs c)"
  using assms values_update [of c well_formed_structures structs f]
  by (simp add: well_formed_def)

lemma well_formed_structures_update:
  assumes "well_formed_structures structs" and "well_formed_temperatures temps"
  shows "well_formed_structures (AList.update b temps structs)"
  using assms values_update [of structs well_formed_temperatures temps b]
  by (simp add: well_formed_structures_def)

lemma well_formed_temperatures_update:
  assumes "well_formed_temperatures temps" and "well_formed_ensembles ens"
  shows "well_formed_temperatures (AList.update t ens temps)"
  using assms values_update [of temps well_formed_ensembles ens t]
  by (simp add: well_formed_temperatures_def)

lemma well_formed_lookup:
  assumes "well_formed c" and "map_of c f = Some structs"
  shows "well_formed_structures structs"
  using assms map_of_values [of c well_formed_structures f structs]
  by (simp add: well_formed_def)

lemma well_formed_structures_lookup:
  assumes "well_formed_structures structs" and "map_of structs b = Some temps"
  shows "well_formed_temperatures temps"
  using assms map_of_values [of structs well_formed_temperatures b temps]
  by (simp add: well_formed_structures_def)

lemma well_formed_temperatures_lookup:
  assumes "well_formed_temperatures temps" and "map_of temps t = Some ens"
  shows "well_formed_ensembles ens"
  using assms map_of_values [of temps well_formed_ensembles t ens]
  by (simp add: well_formed_temperatures_def)

lemma well_formed_Nil: "well_formed []" "well_formed_structures []" "well_formed_temperatures []"
  by (simp_all add: well_formed_def well_formed_structures_def well_formed_temperatures_def)

lemma well_formed_entry:
  assumes "well_formed c" and "lookup_entry c f b t = Some ens"
  shows "well_formed_ensembles ens"
  using assms
  by (auto simp: lookup_entry_def split: option.splits
      dest!: well_formed_lookup well_formed_structures_lookup well_formed_temperatures_lookup)

lemma ensure_functional_well_formed:
  "well_formed c \<Longrightarrow> well_formed (ensure_functional c f)"
  by (simp add: ensure_functional_def well_formed_update well_formed_Nil)

lemma ensure_base_name_well_formed:
  assumes "well_formed c" and "ensure_base_name c f b = Inr c'"
  shows "well_formed c'"
  using assms
  by (auto simp: ensure_base_name_def getitem_def split: option.splits if_splits
      intro!: well_formed_update well_formed_structures_update well_formed_Nil
      dest: well_formed_lookup)

lemma ensure_temperature_well_formed:
  assumes "well_formed c" and "ensure_temperature c f b t = Inr c'"
  shows "well_formed c'"
  using assms
  by (auto simp: ensure_temperature_def getitem_def split: option.splits if_splits
      intro!: well_formed_update well_formed_structures_update well_formed_temperatures_update
        well_formed_fresh
      dest: well_formed_lookup well_formed_structures_lookup)

lemma ensure_entry_well_formed:
  assumes "well_formed c" and "ensure_entry c f b t = Inr c'"
  shows "well_formed c'"
proof -
  from assms(2) obtain c1 where c1: "ensure_base_name (ensure_functional c f) f b = Inr c1"
    and c': "ensure_temperature c1 f b t = Inr c'"
    by (auto simp: ensure_entry_def split: sum.splits)
  from assms(1) have "well_formed (ensure_functional c f)"
    by (rule ensure_functional_well_formed)
  then have "well_formed c1"
    using c1 by (rule ensure_base_name_well_formed)
  then show ?thesis
    using c' by (rule ensure_temperature_well_formed)
qed

lemma ensure_functional_lookup:
  "lookup_entry (ensure_functional c f) f' b' t' = lookup_entry c f' b' t'"
  by (auto simp: ensure_functional_def has_key_def lookup_entry_def AList.update_conv'
      split: option.splits)

lemma ensure_base_name_lookup:
  assumes "ensure_base_name c f b = Inr c'"
  shows "lookup_entry c' f' b' t' = lookup_entry c f' b' t'"
  using assms
  by (auto simp: ensure_base_name_def getitem_def has_key_def lookup_entry_def
      AList.update_conv' split: option.splits if_splits)

lemma tally_fresh: "tally (AList.update f (AList.update b (AList.update t fresh_counts temps) structs) c) f b t e st = 0"
  by (simp add: tally_def lookup_entry_def AList.update_conv' fresh_counts_def)

lemma ensure_temperature_tally:
  assumes "ensure_temperature c f b t = Inr c'"
  shows "tally c' f' b' t' e' st' = tally c f' b' t' e' st'"
proof (cases "lookup_entry c f b t")
  case (Some ens)
  with assms have "c' = c"
    by (auto simp: ensure_temperature_def getitem_def has_key_def lookup_entry_def
        split: option.splits if_splits)
  then show ?thesis by simp
next
  case None
  with assms obtain structs temps where *: "map_of c f = Some structs" "map_of structs b = Some temps"
    "map_of temps t = None"
    "c' = AList.update f (AList.update b (AList.update t fresh_counts temps) structs) c"
    by (auto simp: ensure_temperature_def getitem_def has_key_def lookup_entry_def
        split: option.splits if_splits)
  show ?thesis
  proof (cases "f' = f \<and> b' = b \<and> t' = t")
    case True
    then show ?thesis
      using * None by (simp add: tally_fresh) (simp add: tally_def)
  next
    case False
    then have "lookup_entry c' f' b' t' = lookup_entry c f' b' t'"
      using * by (auto simp: lookup_entry_def AList.update_conv')
    then show ?thesis by (simp add: tally_def)
  qed
qed

lemma ensure_entry_tally:
  assumes "ensure_entry c f b t = Inr c'"
  shows "tally c' f' b' t' e' st' = tally c f' b' t' e' st'"
proof -
  from assms obtain c1 where c1: "ensure_base_name (ensure_functional c f) f b = Inr c1"
    and c': "ensure_temperature c1 f b t = Inr c'"
    by (auto simp: ensure_entry_def split: sum.splits)
  have "tally c' f' b' t' e' st' = tally c1 f' b' t' e' st'"
    using c' by (rule ensure_temperature_tally)
  also have "\<dots> = tally c f' b' t' e' st'"
    using ensure_base_name_lookup [OF c1] ensure_functional_lookup
    by (simp add: tally_def)
  finally show ?thesis .
qed

section \<open>The counter update\<close>

lemma get_job_status_cases:
  "get_job_status isfile root i = str ''completed'' \<or> get_job_status isfile root i = str ''not_started''"
  by (simp add: get_job_status_def)

lemma increment_unfold:
  assumes "increment c f b t e st = Inr c'"
  obtains structs temps ens counts n where
    "map_of c f = Some structs" "map_of structs b = Some temps" "map_of temps t = Some ens"
    "map_of ens e = Some counts" "map_of counts st = Some n"
    "c' = AList.update f (AList.update b (AList.update t
            (AList.update e (AList.update st (n + 1) counts) ens) temps) structs) c"
  using assms by (auto simp: increment_def getitem_def split: option.splits)

lemma keys_update_present:
  assumes "map_of al k = Some v"
  shows "fst ` set (AList.update k v' al) = fst ` set al"
proof -
  from assms have "(k, v) \<in> set al"
    by (rule map_of_SomeD)
  then have "k \<in> fst ` set al"
    by force
  then show ?thesis
    by (simp add: AList.dom_update insert_absorb)
qed

lemma well_formed_counts_lookup:
  assumes "well_formed_ensembles ens" and "map_of ens e = Some counts"
  shows "well_formed_counts counts"
proof -
  from assms(2) have "(e, counts) \<in> set ens"
    by (rule map_of_SomeD)
  moreover from assms(1) have "\<forall>(e, counts) \<in> set ens. well_formed_counts counts"
    by (simp add: well_formed_ensembles_def)
  ultimately show ?thesis
    by auto
qed

lemma well_formed_ensembles_update:
  assumes "well_formed_ensembles ens" and "map_of ens e = Some counts"
    and "well_formed_counts counts'"
  shows "well_formed_ensembles (AList.update e counts' ens)"
proof -
  from assms(1) have "\<forall>(e, counts) \<in> set ens. well_formed_counts counts"
    by (simp add: well_formed_ensembles_def)
  then have "\<forall>(e', c') \<in> set (AList.update e counts' ens). well_formed_counts c'"
    using assms(3) values_update [of ens well_formed_counts counts' e] by simp
  moreover have "fst ` set (AList.update e counts' ens) = {str ''npt'', str ''nvt''}"
    using assms(1) keys_update_present [OF assms(2)]
    by (simp add: well_formed_ensembles_def)
  ultimately show ?thesis
    by (simp add: well_formed_ensembles_def)
qed

lemma well_formed_counts_update:
  assumes "well_formed_counts counts"
  shows "well_formed_counts (AList.update st n counts)"
  using assms by (auto simp: well_formed_counts_def AList.dom_update)

lemma increment_well_formed:
  assumes "well_formed c" and "increment c f b t e st = Inr c'"
  shows "well_formed c'"
proof -
  from assms(2) obtain structs temps ens counts n where *:
    "map_of c f = Some structs" "map_of structs b = Some temps" "map_of temps t = Some ens"
    "map_of ens e = Some counts" "map_of counts st = Some n"
    "c' = AList.update f (AList.update b (AList.update t
            (AList.update e (AList.update st (n + 1) counts) ens) temps) structs) c"
    by (rule increment_unfold)
  have s: "well_formed_structures structs"
    using assms(1) *(1) by (rule well_formed_lookup)
  then have t: "well_formed_temperatures temps"
    using *(2) by (rule well_formed_structures_lookup)
  then have e: "well_formed_ensembles ens"
    using *(3) by (rule well_formed_temperatures_lookup)
  then have "well_formed_counts counts"
    using *(4) by (rule well_formed_counts_lookup)
  then have "well_formed_counts (AList.update st (n + 1) counts)"
    by (rule well_formed_counts_update)
  with e *(4) have "well_formed_ensembles (AList.update e (AList.update st (n + 1) counts) ens)"
    by (rule well_formed_ensembles_update)
  with t have "well_formed_temperatures (AList.update t
      (AList.update e (AList.update st (n + 1) counts) ens) temps)"
    by (rule well_formed_temperatures_update)
  with s have "well_formed_structures (AList.update b (AList.update t
      (AList.update e (AList.update st (n + 1) counts) ens) temps) structs)"
    by (rule well_formed_structures_update)
  with assms(1) show ?thesis
    unfolding *(6) by (rule well_formed_update)
qed


lemma increment_tally:
  assumes "increment c f b t e st = Inr c'"
  shows "tally c' f' b' t' e' st' =
     tally c f' b' t' e' st' +
       (if f' = f \<and> b' = b \<and> t' = t \<and> e' = e \<and> st' = st then 1 else 0)"
proof -
  from assms obtain structs temps ens counts n where *:
    "map_of c f = Some structs" "map_of structs b = Some temps" "map_of temps t = Some ens"
    "map_of ens e = Some counts" "map_of counts st = Some n"
    "c' = AList.update f (AList.update b (AList.update t
            (AList.update e (AList.update st (n + 1) counts) ens) temps) structs) c"
    by (rule increment_unfold)
  show ?thesis
  proof (cases "f' = f \<and> b' = b \<and> t' = t")
    case False
    then have "lookup_entry c' f' b' t' = lookup_entry c f' b' t'"
      using *(1,2,3) unfolding *(6)
      by (auto simp: lookup_entry_def AList.update_conv')
    with False show ?thesis
      by (auto simp: tally_def)
  next
    case True
    have new: "lookup_entry c' f b t =
        Some (AList.update e (AList.update st (n + 1) counts) ens)"
      unfolding *(6) by (simp add: lookup_entry_def AList.update_conv')
    have old: "lookup_entry c f b t = Some ens"
      using *(1,2,3) by (simp add: lookup_entry_def)
    show ?thesis
    proof (cases "e' = e")
      case False
      with True show ?thesis
        by (simp add: tally_def new old AList.update_conv')
    next
      case e: True
      show ?thesis
      proof (cases "st' = st")
        case False
        with True e *(4) show ?thesis
          by (simp add: tally_def new old AList.update_conv')
      next
        case st: True
        with True e *(4,5) show ?thesis
          by (simp add: tally_def new old AList.update_conv')
      qed
    qed
  qed
qed


lemma increment_key_error:
  assumes "well_formed c" and "lookup_entry c f b t \<noteq> None" and "e \<notin> {str ''npt'', str ''nvt''}"
  shows "increment c f b t e st = Inl KeyError"
proof -
  from assms(2) obtain structs temps ens where *:
    "map_of c f = Some structs" "map_of structs b = Some temps" "map_of temps t = Some ens"
    by (auto simp: lookup_entry_def split: option.splits)
  then have "lookup_entry c f b t = Some ens"
    by (simp add: lookup_entry_def)
  with assms(1) have "well_formed_ensembles ens"
    by (rule well_formed_entry)
  with assms(3) have "e \<notin> fst ` set ens"
    by (simp add: well_formed_ensembles_def)
  then have "map_of ens e = None"
    by (simp add: map_of_eq_None_iff)
  with * show ?thesis
    by (simp add: increment_def getitem_def)
qed

section \<open>The loop over the iterations\<close>

lemma count_iterations_well_formed:
  assumes "well_formed c"
    and "count_iterations isfile root f b t e c its = Inr c'"
  shows "well_formed c'"
  using assms
proof (induction its arbitrary: c)
  case Nil
  then show ?case by simp
next
  case (Cons i its)
  from Cons.prems(2) obtain c1 where
    c1: "increment c f b t e (get_job_status isfile root i) = Inr c1"
    and rest: "count_iterations isfile root f b t e c1 its = Inr c'"
    by (auto split: sum.splits)
  from Cons.prems(1) c1 have "well_formed c1"
    by (rule increment_well_formed)
  then show ?case
    using rest by (rule Cons.IH)
qed

lemma count_iterations_tally:
  assumes "count_iterations isfile root f b t e c its = Inr c'"
  shows "tally c' f' b' t' e' st' =
     tally c f' b' t' e' st' +
       (if f' = f \<and> b' = b \<and> t' = t \<and> e' = e
        then int (length (filter (\<lambda>i. get_job_status isfile root i = st') its)) else 0)"
  using assms
proof (induction its arbitrary: c)
  case Nil
  then show ?case by simp
next
  case (Cons i its)
  from Cons.prems obtain c1 where
    c1: "increment c f b t e (get_job_status isfile root i) = Inr c1"
    and rest: "count_iterations isfile root f b t e c1 its = Inr c'"
    by (auto split: sum.splits)
  show ?case
    unfolding Cons.IH [OF rest] increment_tally [OF c1] by auto
qed


lemma count_iterations_key_error:
  assumes "well_formed c" and "lookup_entry c f b t \<noteq> None" and "e \<notin> {str ''npt'', str ''nvt''}"
    and "its \<noteq> []"
  shows "count_iterations isfile root f b t e c its = Inl KeyError"
proof -
  from assms(4) obtain i rest where "its = i # rest"
    by (cases its) auto
  moreover have "increment c f b t e (get_job_status isfile root i) = Inl KeyError"
    using assms(1,2,3) by (rule increment_key_error)
  ultimately show ?thesis by simp
qed

lemma ensure_entry_present:
  assumes "ensure_entry c f b t = Inr c'"
  shows "lookup_entry c' f b t \<noteq> None"
  using assms ensure_entry_lookup [of c f b t] by auto

lemma ensure_entry_ok: "\<exists>c'. ensure_entry c f b t = Inr c'"
  using ensure_entry_lookup [of c f b t] by blast

lemma length_filter_sorted_list_of_set:
  assumes "finite S"
  shows "length (filter P (sorted_list_of_set S)) = card {x \<in> S. P x}"
proof -
  have "distinct (filter P (sorted_list_of_set S))"
    by simp
  then have "length (filter P (sorted_list_of_set S)) = card (set (filter P (sorted_list_of_set S)))"
    by (rule distinct_card [symmetric])
  also have "set (filter P (sorted_list_of_set S)) = {x \<in> S. P x}"
    using assms by auto
  finally show ?thesis .
qed

lemma iterations_status_count:
  assumes "iterations files = Inr its"
  shows "int (length (filter (\<lambda>i. get_job_status isfile root i = st) its)) =
     status_count isfile (root, dirs, files) st"
proof -
  from assms have "its = sorted_list_of_set
      (leading_two_digits ` {file \<in> set files. re_match_aimd file})"
    by (simp add: iterations_eq)
  then show ?thesis
    by (simp add: status_count_def length_filter_sorted_list_of_set)
qed

section \<open>The loop over the directories\<close>

lemma process_directory_unkeyed:
  assumes "directory_key valid d = None" and "process_directory isfile valid c d = Inr c'"
  shows "c' = c"
proof -
  obtain root dirs files where d: "d = (root, dirs, files)"
    by (cases d)
  from assms show ?thesis
    unfolding d process_directory_def directory_key_def Let_def
    by (simp split: if_splits option.splits)
qed

lemma process_directory_keyed:
  assumes "directory_key valid (root, dirs, files) = Some (f, b, t, e)"
  shows "process_directory isfile valid c (root, dirs, files) =
     (case ensure_entry c f b t of
        Inl x \<Rightarrow> Inl x
      | Inr c1 \<Rightarrow>
          (case iterations files of
             Inl x \<Rightarrow> Inl x
           | Inr its \<Rightarrow> count_iterations isfile root f b t e c1 its))"
  using assms
  unfolding process_directory_def directory_key_def Let_def
  by (auto split: if_splits option.splits)

lemma process_directory_well_formed:
  assumes "well_formed c" and "process_directory isfile valid c d = Inr c'"
  shows "well_formed c'"
proof (cases "directory_key valid d")
  case None
  then have "c' = c"
    using assms(2) by (rule process_directory_unkeyed)
  with assms(1) show ?thesis by simp
next
  case (Some k)
  obtain root dirs files where d: "d = (root, dirs, files)"
    by (cases d)
  obtain f b t e where k: "k = (f, b, t, e)"
    by (cases k)
  from Some have key: "directory_key valid (root, dirs, files) = Some (f, b, t, e)"
    by (simp add: d k)
  from assms(2) obtain c1 its where c1: "ensure_entry c f b t = Inr c1"
    and "iterations files = Inr its"
    and c': "count_iterations isfile root f b t e c1 its = Inr c'"
    unfolding d process_directory_keyed [OF key] by (auto split: sum.splits)
  from assms(1) c1 have "well_formed c1"
    by (rule ensure_entry_well_formed)
  then show ?thesis
    using c' by (rule count_iterations_well_formed)
qed

lemma process_directory_tally:
  assumes "process_directory isfile valid c d = Inr c'"
  shows "tally c' f b t e st =
     tally c f b t e st +
       (if directory_key valid d = Some (f, b, t, e) then status_count isfile d st else 0)"
proof (cases "directory_key valid d")
  case None
  then have "c' = c"
    using assms by (rule process_directory_unkeyed)
  with None show ?thesis by simp
next
  case (Some k)
  obtain root dirs files where d: "d = (root, dirs, files)"
    by (cases d)
  obtain f0 b0 t0 e0 where k: "k = (f0, b0, t0, e0)"
    by (cases k)
  from Some have key: "directory_key valid (root, dirs, files) = Some (f0, b0, t0, e0)"
    by (simp add: d k)
  from assms obtain c1 its where c1: "ensure_entry c f0 b0 t0 = Inr c1"
    and its: "iterations files = Inr its"
    and c': "count_iterations isfile root f0 b0 t0 e0 c1 its = Inr c'"
    unfolding d process_directory_keyed [OF key] by (auto split: sum.splits)
  have "tally c' f b t e st =
      tally c1 f b t e st +
        (if f = f0 \<and> b = b0 \<and> t = t0 \<and> e = e0
         then int (length (filter (\<lambda>i. get_job_status isfile root i = st) its)) else 0)"
    using c' by (rule count_iterations_tally)
  also have "tally c1 f b t e st = tally c f b t e st"
    using c1 by (rule ensure_entry_tally)
  also have "int (length (filter (\<lambda>i. get_job_status isfile root i = st) its)) =
      status_count isfile d st"
    unfolding d using its by (rule iterations_status_count)
  finally show ?thesis
    using Some by (auto simp: k)
qed


lemma process_directory_key_error:
  assumes "well_formed c" and "directory_key valid (root, dirs, files) = Some (f, b, t, e)"
    and "e \<notin> {str ''npt'', str ''nvt''}" and "filter re_match_aimd files \<noteq> []"
  shows "process_directory isfile valid c (root, dirs, files) = Inl KeyError"
proof -
  let ?S = "leading_two_digits ` {file \<in> set files. re_match_aimd file}"
  obtain c1 where c1: "ensure_entry c f b t = Inr c1"
    using ensure_entry_ok by blast
  from assms(1) c1 have wf: "well_formed c1"
    by (rule ensure_entry_well_formed)
  from c1 have present: "lookup_entry c1 f b t \<noteq> None"
    by (rule ensure_entry_present)
  from assms(4) have "{file \<in> set files. re_match_aimd file} \<noteq> {}"
    by (auto simp: filter_empty_conv)
  then have "?S \<noteq> {}"
    by simp
  moreover have "finite ?S"
    by simp
  ultimately have "sorted_list_of_set ?S \<noteq> []"
    by simp
  with wf present assms(3)
  have "count_iterations isfile root f b t e c1 (sorted_list_of_set ?S) = Inl KeyError"
    by (rule count_iterations_key_error)
  then show ?thesis
    unfolding process_directory_keyed [OF assms(2)] by (simp add: c1 iterations_eq)
qed

lemma analyze_loop_well_formed:
  assumes "well_formed c" and "analyze_loop isfile valid c walk = Inr c'"
  shows "well_formed c'"
  using assms
proof (induction walk arbitrary: c)
  case Nil
  then show ?case by simp
next
  case (Cons d walk)
  from Cons.prems(2) obtain c1 where c1: "process_directory isfile valid c d = Inr c1"
    and rest: "analyze_loop isfile valid c1 walk = Inr c'"
    by (auto split: sum.splits)
  from Cons.prems(1) c1 have "well_formed c1"
    by (rule process_directory_well_formed)
  then show ?case
    using rest by (rule Cons.IH)
qed

lemma analyze_loop_tally:
  assumes "analyze_loop isfile valid c walk = Inr c'"
  shows "tally c' f b t e st =
     tally c f b t e st +
       (\<Sum>d\<leftarrow>walk. if directory_key valid d = Some (f, b, t, e)
                    then status_count isfile d st else 0)"
  using assms
proof (induction walk arbitrary: c)
  case Nil
  then show ?case by simp
next
  case (Cons d walk)
  from Cons.prems obtain c1 where c1: "process_directory isfile valid c d = Inr c1"
    and rest: "analyze_loop isfile valid c1 walk = Inr c'"
    by (auto split: sum.splits)
  show ?case
    unfolding Cons.IH [OF rest] process_directory_tally [OF c1] by simp
qed

lemma tally_Nil: "tally [] f b t e st = 0"
  by (simp add: tally_def lookup_entry_def)

section \<open>Unknown ensembles and the addition of tallies\<close>

lemma analyze_calculations_well_formed:
  assumes "analyze_calculations isfile walk valid = Inr c"
  shows "well_formed c"
  using well_formed_Nil(1) assms
  unfolding analyze_calculations_def by (rule analyze_loop_well_formed)

lemma analyze_calculations_tally:
  assumes "analyze_calculations isfile walk valid = Inr c"
  shows "tally c f b t e st =
     (\<Sum>d\<leftarrow>walk. if directory_key valid d = Some (f, b, t, e)
                  then status_count isfile d st else 0)"
  using analyze_loop_tally [of isfile valid "[]" walk c f b t e st] assms
  by (simp add: analyze_calculations_def tally_Nil)

text \<open>
  Claim C2. Take a directory with \<open>POSCAR\<close>, at least six path segments, a valid structure
  name and a temperature that parses, whose ensemble segment is neither \<open>npt\<close> nor \<open>nvt\<close>,
  and a table of the shape the program builds. Once the entry for the directory is in
  place, using the ensemble segment as a key in line 78 raises \<open>KeyError\<close>, whatever the
  job status. Line 78 runs once per iteration, so when the directory has a file that
  matches the iteration pattern the step raises \<open>KeyError\<close>, and the run over a walk that
  contains the directory stops there at the latest, without a table.
\<close>

theorem unknown_ensemble_key_error:
  assumes "str ''POSCAR'' \<in> set files"
    and "path_parts = split root (ord CHR ''/'')"
    and "6 \<le> length path_parts"
    and "neg_index path_parts 5 \<in> valid"
    and "py_int (neg_index path_parts 1) = Some t"
    and "neg_index path_parts 3 \<notin> {str ''npt'', str ''nvt''}"
    and "well_formed c"
  shows "(\<forall>c1 st. ensure_entry c (neg_index path_parts 4) (neg_index path_parts 5) t = Inr c1 \<longrightarrow>
            increment c1 (neg_index path_parts 4) (neg_index path_parts 5) t
              (neg_index path_parts 3) st = Inl KeyError) \<and>
         (filter re_match_aimd files \<noteq> [] \<longrightarrow>
            process_directory isfile valid c (root, dirs, files) = Inl KeyError \<and>
            analyze_calculations isfile (pre @ (root, dirs, files) # post) valid =
              (case analyze_calculations isfile pre valid of
                 Inl x \<Rightarrow> Inl x
               | Inr c' \<Rightarrow> Inl KeyError))"
proof (intro conjI allI impI)
  let ?f = "neg_index path_parts 4" and ?b = "neg_index path_parts 5"
    and ?e = "neg_index path_parts 3"
  have key: "directory_key valid (root, dirs, files) = Some (?f, ?b, t, ?e)"
    using assms(1-5) by (simp add: directory_key_def Let_def)
  {
    fix c1 st
    assume c1: "ensure_entry c ?f ?b t = Inr c1"
    with assms(7) have "well_formed c1"
      by (rule ensure_entry_well_formed)
    moreover from c1 have "lookup_entry c1 ?f ?b t \<noteq> None"
      by (rule ensure_entry_present)
    ultimately show "increment c1 ?f ?b t ?e st = Inl KeyError"
      using assms(6) by (rule increment_key_error)
  }
  assume files: "filter re_match_aimd files \<noteq> []"
  have step: "process_directory isfile valid c0 (root, dirs, files) = Inl KeyError"
    if "well_formed c0" for c0
    using that key assms(6) files by (rule process_directory_key_error)
  from assms(7) show "process_directory isfile valid c (root, dirs, files) = Inl KeyError"
    by (rule step)
  show "analyze_calculations isfile (pre @ (root, dirs, files) # post) valid =
      (case analyze_calculations isfile pre valid of Inl x \<Rightarrow> Inl x | Inr c' \<Rightarrow> Inl KeyError)"
  proof (cases "analyze_calculations isfile pre valid")
    case (Inl x)
    then show ?thesis
      by (simp add: analyze_calculations_def analyze_loop_append)
  next
    case (Inr c')
    then have "well_formed c'"
      by (rule analyze_calculations_well_formed)
    then have "process_directory isfile valid c' (root, dirs, files) = Inl KeyError"
      by (rule step)
    with Inr show ?thesis
      by (simp add: analyze_calculations_def analyze_loop_append)
  qed
qed

theorem unknown_ensemble_key_error_witness:
  "analyze_calculations (\<lambda>p. False)
     [(str ''root/A/PBE/nve/1.0/300'', [], [str ''POSCAR'', str ''00_aimd_log''])] {str ''A''} = Inl KeyError"
proof -
  have h1: "str ''POSCAR'' \<in> set [str ''POSCAR'', str ''00_aimd_log'']"
    by code_simp
  have h2: "[str ''root'', str ''A'', str ''PBE'', str ''nve'', str ''1.0'', str ''300''] =
      split (str ''root/A/PBE/nve/1.0/300'') (ord CHR ''/'')"
    by code_simp
  have h3: "6 \<le> length [str ''root'', str ''A'', str ''PBE'', str ''nve'', str ''1.0'', str ''300'']"
    by code_simp
  have h4: "neg_index [str ''root'', str ''A'', str ''PBE'', str ''nve'', str ''1.0'', str ''300''] 5 \<in> {str ''A''}"
    by code_simp
  have h5: "py_int (neg_index [str ''root'', str ''A'', str ''PBE'', str ''nve'', str ''1.0'', str ''300''] 1) = Some 300"
    by code_simp
  have h6: "neg_index [str ''root'', str ''A'', str ''PBE'', str ''nve'', str ''1.0'', str ''300''] 3 \<notin> {str ''npt'', str ''nvt''}"
    by code_simp
  have h7: "filter re_match_aimd [str ''POSCAR'', str ''00_aimd_log''] \<noteq> []"
    by code_simp
  from unknown_ensemble_key_error [OF h1 h2 h3 h4 h5 h6 well_formed_Nil(1),
      where pre = "[]" and post = "[]" and isfile = "\<lambda>p. False" and dirs = "[]"] h7
  show ?thesis
    by (simp add: analyze_calculations_def)
qed



section \<open>Properties of the report\<close>

lemma well_formed_counts_keys:
  assumes "well_formed_counts counts"
  shows "\<exists>n m. map_of counts (str ''completed'') = Some n \<and> map_of counts (str ''not_started'') = Some m"
proof -
  from assms have "str ''completed'' \<in> fst ` set counts" "str ''not_started'' \<in> fst ` set counts"
    by (simp_all add: well_formed_counts_def)
  then have "map_of counts (str ''completed'') \<noteq> None" "map_of counts (str ''not_started'') \<noteq> None"
    by (simp_all only: map_of_eq_None_iff not_not)
  then show ?thesis
    by blast
qed

lemma well_formed_ensembles_keys:
  assumes "well_formed_ensembles ens"
  shows "\<exists>npt nvt. map_of ens (str ''npt'') = Some npt \<and> map_of ens (str ''nvt'') = Some nvt \<and>
     well_formed_counts npt \<and> well_formed_counts nvt"
proof -
  from assms have keys: "fst ` set ens = {str ''npt'', str ''nvt''}"
    by (simp add: well_formed_ensembles_def)
  have "str ''npt'' \<in> fst ` set ens" "str ''nvt'' \<in> fst ` set ens"
    unfolding keys by simp_all
  then have "map_of ens (str ''npt'') \<noteq> None" "map_of ens (str ''nvt'') \<noteq> None"
    by (simp_all only: map_of_eq_None_iff not_not)
  then obtain npt nvt where *: "map_of ens (str ''npt'') = Some npt" "map_of ens (str ''nvt'') = Some nvt"
    by (simp only: not_None_eq) (erule exE)+
  from assms *(1) have "well_formed_counts npt"
    by (rule well_formed_counts_lookup)
  moreover from assms *(2) have "well_formed_counts nvt"
    by (rule well_formed_counts_lookup)
  ultimately show ?thesis
    using * by simp
qed

lemma read_counts_well_formed:
  assumes "well_formed_ensembles ens"
  shows "read_counts ens =
     Inr (cell ens (str ''npt'') (str ''completed''), cell ens (str ''npt'') (str ''not_started''),
          cell ens (str ''nvt'') (str ''completed''), cell ens (str ''nvt'') (str ''not_started''))"
proof -
  from assms obtain npt nvt where e: "map_of ens (str ''npt'') = Some npt"
    "map_of ens (str ''nvt'') = Some nvt" and wf: "well_formed_counts npt" "well_formed_counts nvt"
    using well_formed_ensembles_keys by blast
  from wf(1) obtain a b where npt: "map_of npt (str ''completed'') = Some a"
    "map_of npt (str ''not_started'') = Some b"
    using well_formed_counts_keys by blast
  from wf(2) obtain c d where nvt: "map_of nvt (str ''completed'') = Some c"
    "map_of nvt (str ''not_started'') = Some d"
    using well_formed_counts_keys by blast
  show ?thesis
    by (simp add: read_counts_def getitem_def cell_def e npt nvt)
qed

lemma print_rows_Cons:
  assumes "well_formed_ensembles ens"
  shows "print_rows structure i ((t, ens) # rest) out =
     print_rows structure (Suc i) rest
       (out @ [temperature_row (if i = 0 then structure else []) t ens])"
  by (simp add: read_counts_well_formed [OF assms] temperature_row_def)

lemma print_rows_later:
  assumes "well_formed_temperatures ts"
  shows "print_rows structure (Suc i) ts out =
     (out @ map (\<lambda>(temperature, status_counts). temperature_row [] temperature status_counts) ts,
      None)"
  using assms
proof (induction ts arbitrary: i out)
  case Nil
  then show ?case by simp
next
  case (Cons p ts)
  obtain t ens where p: "p = (t, ens)"
    by (cases p)
  from Cons.prems have wf: "well_formed_ensembles ens" and rest: "well_formed_temperatures ts"
    by (simp_all add: well_formed_temperatures_def p)
  show ?case
    unfolding p print_rows_Cons [OF wf] Cons.IH [OF rest] by simp
qed

lemma print_rows_block:
  assumes "well_formed_temperatures ts"
  shows "print_rows structure 0 ts out = (out @ structure_block structure ts, None)"
proof (cases ts)
  case Nil
  then show ?thesis by (simp add: structure_block_def)
next
  case (Cons p rest)
  obtain t ens where p: "p = (t, ens)"
    by (cases p)
  from assms have wf: "well_formed_ensembles ens" and rest: "well_formed_temperatures rest"
    by (simp_all add: well_formed_temperatures_def Cons p)
  show ?thesis
    unfolding Cons p print_rows_Cons [OF wf] print_rows_later [OF rest]
    by (simp add: structure_block_def)
qed

lemma well_formed_temperatures_sort:
  "well_formed_temperatures (sort_key fst temps) = well_formed_temperatures temps"
  by (simp add: well_formed_temperatures_def)

lemma print_structures_blocks:
  assumes "well_formed_structures structs"
  shows "print_structures structs out =
     (out @ concat (map (\<lambda>(structure, temps).
                           structure_block structure (sort_key fst temps) @ [[]]) structs),
      None)"
  using assms
proof (induction structs arbitrary: out)
  case Nil
  then show ?case by simp
next
  case (Cons p structs)
  obtain s temps where p: "p = (s, temps)"
    by (cases p)
  from Cons.prems have wf: "well_formed_temperatures (sort_key fst temps)"
    and rest: "well_formed_structures structs"
    by (simp_all add: well_formed_structures_def p well_formed_temperatures_sort)
  show ?case
    by (simp add: p print_rows_block [OF wf] Cons.IH [OF rest])
qed

lemma print_functionals_report:
  assumes "well_formed c"
  shows "print_functionals c out = (out @ rendered_report c, None)"
  using assms
proof (induction c arbitrary: out)
  case Nil
  then show ?case by (simp add: rendered_report_def)
next
  case (Cons p c)
  obtain f structs where p: "p = (f, structs)"
    by (cases p)
  from Cons.prems have wf: "well_formed_structures structs" and rest: "well_formed c"
    by (simp_all add: well_formed_def p)
  have "rendered_report (p # c) =
      [(str ''Functional: '') @ f @ [10],
       format_row (str ''Structure'') (str ''Temperature'') (str ''npt'') (str ''nvt'') (str ''npt(q)'') (str ''nvt(q)''),
       replicate 80 (ord CHR ''-'')] @
      concat (map (\<lambda>(structure, temps).
                     structure_block structure (sort_key fst temps) @ [[]]) structs) @
      rendered_report c"
    by (simp add: rendered_report_def p)
  then show ?case
    by (simp add: p print_structures_blocks [OF wf] Cons.IH [OF rest])
qed

text \<open>
  Claim C9. For a table of the shape the program builds, \<open>print_summary\<close> raises nothing
  and prints exactly the report described above: for every structure the rows follow the
  temperatures in ascending order, whatever the order in which the walk met them (the
  sorted sequence is a rearrangement of the structure's temperature entries), the first
  row of the structure carries its name and the later rows an empty name field.
\<close>

theorem report_rows_sorted:
  assumes "well_formed calculations"
  shows "print_summary calculations = (rendered_report calculations, None) \<and>
     (\<forall>(functional, structs) \<in> set calculations. \<forall>(structure, temps) \<in> set structs.
        sorted (map fst (sort_key fst temps)) \<and> mset (sort_key fst temps) = mset temps)"
  using print_functionals_report [OF assms, of "[]"]
  by (auto simp: print_summary_def)

theorem report_rows_sorted_witness:
  "drop 3 (fst (print_summary
      [(str ''PBE'', [(str ''A'', [(500, fresh_counts),
                           (100, fresh_counts),
                           (300, [(str ''npt'', [(str ''completed'', 1), (str ''not_started'', 1)]),
                                  (str ''nvt'', [(str ''completed'', 0), (str ''not_started'', 1)])])])])])) =
     [str ''A                         100          0    0    0      0     '',
      (str ''                          300          1    0    1      1     ''),
      (str ''                          500          0    0    0      0     ''),
      []] \<and>
   snd (print_summary
      [(str ''PBE'', [(str ''A'', [(500, fresh_counts),
                           (100, fresh_counts),
                           (300, [(str ''npt'', [(str ''completed'', 1), (str ''not_started'', 1)]),
                                  (str ''nvt'', [(str ''completed'', 0), (str ''not_started'', 1)])])])])]) = None"
proof -
  let ?e = "[(str ''npt'', [(str ''completed'', 1), (str ''not_started'', 1)]),
             (str ''nvt'', [(str ''completed'', 0), (str ''not_started'', 1 :: int)])]"
  let ?T = "[(str ''PBE'', [(str ''A'', [(500, fresh_counts), (100, fresh_counts), (300, ?e)])])]"
  have "well_formed_ensembles ?e"
    by (simp add: well_formed_ensembles_def well_formed_counts_def)
  then have wf: "well_formed ?T"
    by (simp add: well_formed_def well_formed_structures_def well_formed_temperatures_def
        well_formed_fresh)
  have r: "drop 3 (rendered_report ?T) =
     [str ''A                         100          0    0    0      0     '',
      (str ''                          300          1    0    1      1     ''),
      (str ''                          500          0    0    0      0     ''),
      []]"
    by code_simp
  from report_rows_sorted [OF wf] have "print_summary ?T = (rendered_report ?T, None)"
    by (rule conjunct1)
  with r show ?thesis
    by simp
qed

end
